theory Spec2Isabelle
  imports Main "HOL-Library.Char_ord" "HOL-Library.List_Lexorder" "HOL-Library.Multiset"
begin

section \<open>Strings and formatting as the Go runtime does them\<close>

text \<open>
  A Go string is a byte sequence and is compared byte by byte; \<open>string\<close> (a list of
  8-bit characters) with the lexicographic order is the same thing.
\<close>

definition dq :: char where
  "dq = CHR 0x22"

definition bsl :: char where
  "bsl = CHR 0x5C"

text \<open>\<open>%d\<close> of a Go int.\<close>

fun dec_nat :: "nat \<Rightarrow> string" where
  "dec_nat n =
     (if n < 10 then [''0123456789'' ! n]
      else dec_nat (n div 10) @ [''0123456789'' ! (n mod 10)])"

definition fmt_d :: "int \<Rightarrow> string" where
  "fmt_d i = (if i < 0 then CHR ''-'' # dec_nat (nat (- i)) else dec_nat (nat i))"

text \<open>
  \<open>%q\<close> of a string (strconv.Quote): the text between double quotes, with the double
  quote and the backslash escaped, the control characters written as escapes and every
  printable ASCII character kept. Bytes from 0x80 on are kept as they are, which is what
  Go does for printable UTF-8 text.
\<close>

definition hex_digit :: "nat \<Rightarrow> char" where
  "hex_digit n = ''0123456789abcdef'' ! (n mod 16)"

definition quote_byte :: "char \<Rightarrow> string" where
  "quote_byte c =
     (let n = (of_char c :: nat) in
      if c = dq then [bsl, dq]
      else if c = bsl then [bsl, bsl]
      else if 0x20 \<le> n \<and> n < 0x7F then [c]
      else if n = 7 then [bsl, CHR ''a'']
      else if n = 8 then [bsl, CHR ''b'']
      else if n = 12 then [bsl, CHR ''f'']
      else if n = 10 then [bsl, CHR ''n'']
      else if n = 13 then [bsl, CHR ''r'']
      else if n = 9 then [bsl, CHR ''t'']
      else if n = 11 then [bsl, CHR ''v'']
      else if n < 0x80 then [bsl, CHR ''x'', hex_digit (n div 16), hex_digit n]
      else [c])"

definition fmt_q :: "string \<Rightarrow> string" where
  "fmt_q s = dq # concat (map quote_byte s) @ [dq]"


text \<open>strings.Contains and strings.Join.\<close>

fun has_prefix :: "string \<Rightarrow> string \<Rightarrow> bool" where
  "has_prefix s [] = True"
| "has_prefix [] (p # ps) = False"
| "has_prefix (c # cs) (p # ps) = (c = p \<and> has_prefix cs ps)"

fun strings_Contains :: "string \<Rightarrow> string \<Rightarrow> bool" where
  "strings_Contains [] sub = (sub = [])"
| "strings_Contains (c # cs) sub = (has_prefix (c # cs) sub \<or> strings_Contains cs sub)"


section \<open>Errors\<close>

text \<open>
  The sentinel errors of the repository. An error value is its message together with
  the sentinel that \<open>errors.Is\<close> finds in its chain; \<open>Opaque\<close> stands for an error
  of host code that wraps no sentinel.
\<close>

datatype sentinel =
    ErrConnectionFailed
  | ErrMigrationNotFound
  | ErrDuplicateMigration
  | ErrInvalidMigrationName
  | ErrTransactionFailed
  | ErrTrackingTable
  | ErrDuplicateSeeder
  | ErrInvalidSeederName
  | ErrCircularDependency
  | ErrSeederNotFound
  | ErrUnsupportedType
  | Opaque

datatype error = Err (message: string) (kind: sentinel)

fun sentinel_text :: "sentinel \<Rightarrow> string" where
  "sentinel_text ErrConnectionFailed = ''database connection failed''"
| "sentinel_text ErrMigrationNotFound = ''migration not found''"
| "sentinel_text ErrDuplicateMigration = ''duplicate migration name''"
| "sentinel_text ErrInvalidMigrationName = ''invalid migration name''"
| "sentinel_text ErrTransactionFailed = ''transaction failed''"
| "sentinel_text ErrTrackingTable = ''migration tracking table error''"
| "sentinel_text ErrDuplicateSeeder = ''duplicate seeder name''"
| "sentinel_text ErrInvalidSeederName = ''invalid seeder name''"
| "sentinel_text ErrCircularDependency = ''circular seeder dependency''"
| "sentinel_text ErrSeederNotFound = ''seeder not found''"
| "sentinel_text ErrUnsupportedType = ''unsupported column type''"
| "sentinel_text Opaque = []"

text \<open>\<open>fmt.Errorf(prefix + "%w", e)\<close>: the message grows, the chain is kept.\<close>

definition wrap :: "string \<Rightarrow> error \<Rightarrow> error" where
  "wrap pre e = Err (pre @ message e) (kind e)"

definition wrap_sentinel :: "string \<Rightarrow> sentinel \<Rightarrow> error" where
  "wrap_sentinel pre k = Err (pre @ sentinel_text k) k"

section \<open>Schema: column definitions and the three grammars\<close>



datatype default_value = DefaultString string | DefaultBool bool | DefaultInt int






text \<open>The dialects, and \<open>CompileDropAllTables\<close> of each.\<close>

datatype Grammar = PostgresGrammar | MySQLGrammar | SQLiteGrammar


fun CompileDropAllTables :: "Grammar \<Rightarrow> string" where
  "CompileDropAllTables PostgresGrammar = ''DROP SCHEMA public CASCADE; CREATE SCHEMA public''"
| "CompileDropAllTables MySQLGrammar = ''SET FOREIGN_KEY_CHECKS = 0''"
| "CompileDropAllTables SQLiteGrammar =
     ''SELECT name FROM sqlite_master WHERE type='' @ [CHR 0x27] @ ''table'' @ [CHR 0x27] @
     '' AND name NOT LIKE '' @ [CHR 0x27] @ ''sqlite_%'' @ [CHR 0x27]"






section \<open>Migration registry\<close>

text \<open>
  The name pattern \<open>^\d{14}_[a-z][a-z0-9_]*$\<close>: fourteen ASCII digits, an underscore,
  a lower-case letter, then lower-case letters, digits and underscores to the end.
\<close>

definition is_digit :: "char \<Rightarrow> bool" where
  "is_digit c \<longleftrightarrow> CHR ''0'' \<le> c \<and> c \<le> CHR ''9''"

definition is_lower :: "char \<Rightarrow> bool" where
  "is_lower c \<longleftrightarrow> CHR ''a'' \<le> c \<and> c \<le> CHR ''z''"

definition namePattern_MatchString :: "string \<Rightarrow> bool" where
  "namePattern_MatchString s \<longleftrightarrow>
     16 \<le> length s \<and>
     list_all is_digit (take 14 s) \<and>
     s ! 14 = CHR ''_'' \<and>
     is_lower (s ! 15) \<and>
     list_all (\<lambda>c. is_lower c \<or> is_digit c \<or> c = CHR ''_'') (drop 16 s)"

text \<open>
  A migration is host code: what matters here is what its \<open>Up\<close> and \<open>Down\<close>
  return (\<open>None\<close> is nil) and whether it implements \<open>TransactionOption\<close>
  (\<open>None\<close>: it does not).
\<close>

record Migration =
  up_body :: "error option"
  down_body :: "error option"
  DisableTransaction :: "bool option"

record registeredMigration =
  reg_Name :: string
  reg_Migration :: Migration

type_synonym Registry = "registeredMigration list"

definition NewRegistry :: Registry where
  "NewRegistry = []"

text \<open>\<open>sort.Search\<close> of the Go library: binary search on \<open>[0, n)\<close>.\<close>

function sort_Search_loop :: "(nat \<Rightarrow> bool) \<Rightarrow> nat \<Rightarrow> nat \<Rightarrow> nat" where
  "sort_Search_loop f i j =
     (if i < j then
        (let h = (i + j) div 2 in
         if \<not> f h then sort_Search_loop f (h + 1) j else sort_Search_loop f i h)
      else i)"
  by pat_completeness auto
termination
  by (relation "measure (\<lambda>(f, i, j). j - i)") auto

definition sort_Search :: "nat \<Rightarrow> (nat \<Rightarrow> bool) \<Rightarrow> nat" where
  "sort_Search n f = sort_Search_loop f 0 n"

text \<open>
  \<open>Register\<close> returns the error (if any) and the registry after the call. Appending an
  empty entry, shifting the tail and storing at \<open>idx\<close> is insertion at \<open>idx\<close>.
\<close>

definition Registry_Register ::
  "Registry \<Rightarrow> string \<Rightarrow> Migration \<Rightarrow> error option \<times> Registry" where
  "Registry_Register r name m =
     (if \<not> namePattern_MatchString name then
        (Some (wrap_sentinel (''migration name '' @ fmt_q name @ '': '') ErrInvalidMigrationName), r)
      else if \<exists>existing \<in> set r. reg_Name existing = name then
        (Some (wrap_sentinel (''migration name '' @ fmt_q name @ '': '') ErrDuplicateMigration), r)
      else
        (let idx = sort_Search (length r) (\<lambda>i. reg_Name (r ! i) \<ge> name)
         in (None, take idx r @ \<lparr>reg_Name = name, reg_Migration = m\<rparr> # drop idx r)))"

definition Registry_GetAll :: "Registry \<Rightarrow> registeredMigration list" where
  "Registry_GetAll r = r"

definition Registry_Get :: "Registry \<Rightarrow> string \<Rightarrow> error + Migration" where
  "Registry_Get r name =
     (let idx = sort_Search (length r) (\<lambda>i. reg_Name (r ! i) \<ge> name)
      in if idx < length r \<and> reg_Name (r ! idx) = name then Inr (reg_Migration (r ! idx))
         else Inl (wrap_sentinel (''migration name '' @ fmt_q name @ '': '') ErrMigrationNotFound))"

definition Registry_Count :: "Registry \<Rightarrow> nat" where
  "Registry_Count r = length r"

text \<open>Any sequence of \<open>Register\<close> calls, failed ones included.\<close>

fun register_all :: "Registry \<Rightarrow> (string \<times> Migration) list \<Rightarrow> Registry" where
  "register_all r [] = r"
| "register_all r ((name, m) # calls) = register_all (snd (Registry_Register r name m)) calls"

definition noop_migration :: Migration where
  "noop_migration = \<lparr>up_body = None, down_body = None, DisableTransaction = None\<rparr>"

definition two_calls :: "(string \<times> Migration) list" where
  "two_calls = [(''20240102000000_b'', noop_migration), (''20240101000000_a'', noop_migration)]"

section \<open>The database as the migrator sees it\<close>

text \<open>
  The tracking table holds one row per applied migration. \<open>created_at\<close> is filled by the
  database (\<open>DEFAULT CURRENT_TIMESTAMP\<close>); batch numbers are Go ints read from an
  \<open>INTEGER\<close> column, far from the 64-bit limit, so they are integers here.
\<close>

record MigrationRecord =
  mr_Name :: string
  mr_Batch :: int
  mr_CreatedAt :: nat

datatype sql_arg = ArgString string | ArgInt int

text \<open>Host code that the engine calls: hooks and migration bodies.\<close>

datatype event =
    BeforeHook string string
  | AfterHook string string
  | Body Migration string

text \<open>
  The world outside the process. \<open>rows\<close> is the tracking table in insertion order,
  \<open>table_exists\<close> says whether it was created, \<open>statements\<close> is every SQL statement
  sent so far with its arguments, \<open>trace\<close> is the host code called so far, and
  \<open>faults\<close> is what the driver will answer to the coming database calls: \<open>None\<close>
  lets the call through, \<open>Some e\<close> makes it fail with \<open>e\<close>; once the list is used
  up every call goes through.
\<close>

record world =
  rows :: "MigrationRecord list"
  table_exists :: bool
  statements :: "(string \<times> sql_arg list) list"
  trace :: "event list"
  faults :: "error option list"
  clock :: nat

definition db_io :: "world \<Rightarrow> error option \<times> world" where
  "db_io w = (case faults w of [] \<Rightarrow> (None, w) | f # fs \<Rightarrow> (f, w\<lparr>faults := fs\<rparr>))"

definition db_send :: "string \<Rightarrow> sql_arg list \<Rightarrow> world \<Rightarrow> error option \<times> world" where
  "db_send query args w = db_io (w\<lparr>statements := statements w @ [(query, args)]\<rparr>)"

text \<open>
  What a raw statement does to the tables: PostgreSQL's
  \<open>DROP SCHEMA public CASCADE\<close> removes every table of the schema, the tracking table
  with them; a \<open>SELECT\<close> or a \<open>SET\<close> removes nothing.
\<close>

definition db_Exec :: "string \<Rightarrow> world \<Rightarrow> error option \<times> world" where
  "db_Exec stmt w =
     (case db_send stmt [] w of
        (Some e, w') \<Rightarrow> (Some e, w')
      | (None, w') \<Rightarrow>
          (if has_prefix stmt ''DROP SCHEMA public CASCADE''
           then (None, w'\<lparr>rows := [], table_exists := False\<rparr>)
           else (None, w')))"

section \<open>Tracker\<close>

definition EnsureTable_query :: "string \<Rightarrow> string" where
  "EnsureTable_query tableName =
     ''CREATE TABLE IF NOT EXISTS '' @ tableName @ '' ('' @ [CHR 0x0A, CHR 0x09, CHR 0x09] @
     ''id         SERIAL PRIMARY KEY,'' @ [CHR 0x0A, CHR 0x09, CHR 0x09] @
     ''migration  VARCHAR(255) NOT NULL UNIQUE,'' @ [CHR 0x0A, CHR 0x09, CHR 0x09] @
     ''batch      INTEGER NOT NULL,'' @ [CHR 0x0A, CHR 0x09, CHR 0x09] @
     ''created_at TIMESTAMP NOT NULL DEFAULT CURRENT_TIMESTAMP'' @ [CHR 0x0A, CHR 0x09] @
     '')''"

definition GetApplied_query :: "string \<Rightarrow> string" where
  "GetApplied_query tableName =
     ''SELECT migration, batch, created_at FROM '' @ tableName @ '' ORDER BY migration ASC''"

definition GetByBatch_query :: "string \<Rightarrow> string" where
  "GetByBatch_query tableName =
     ''SELECT migration, batch, created_at FROM '' @ tableName @
     '' WHERE batch = $1 ORDER BY migration ASC''"

definition GetLastBatchNumber_query :: "string \<Rightarrow> string" where
  "GetLastBatchNumber_query tableName = ''SELECT COALESCE(MAX(batch), 0) FROM '' @ tableName"

definition Record_query :: "string \<Rightarrow> string" where
  "Record_query tableName =
     ''INSERT INTO '' @ tableName @ '' (migration, batch) VALUES ($1, $2)''"

definition Remove_query :: "string \<Rightarrow> string" where
  "Remove_query tableName = ''DELETE FROM '' @ tableName @ '' WHERE migration = $1''"

definition EnsureTable :: "string \<Rightarrow> world \<Rightarrow> error option \<times> world" where
  "EnsureTable tableName w =
     (case db_send (EnsureTable_query tableName) [] w of
        (Some e, w') \<Rightarrow>
          (Some (wrap_sentinel (''ensure tracking table '' @ fmt_q tableName @ '': '')
                   ErrTrackingTable), w')
      | (None, w') \<Rightarrow> (None, w'\<lparr>table_exists := True\<rparr>))"

definition GetApplied :: "string \<Rightarrow> world \<Rightarrow> (error + MigrationRecord list) \<times> world" where
  "GetApplied tableName w =
     (case db_send (GetApplied_query tableName) [] w of
        (Some e, w') \<Rightarrow> (Inl (wrap_sentinel ''get applied migrations: '' ErrTrackingTable), w')
      | (None, w') \<Rightarrow>
          (if table_exists w' then (Inr (sort_key mr_Name (rows w')), w')
           else (Inl (wrap_sentinel ''get applied migrations: '' ErrTrackingTable), w')))"

definition GetByBatch ::
  "string \<Rightarrow> int \<Rightarrow> world \<Rightarrow> (error + MigrationRecord list) \<times> world" where
  "GetByBatch tableName batch w =
     (let failed = wrap_sentinel (''get migrations for batch '' @ fmt_d batch @ '': '')
                     ErrTrackingTable
      in case db_send (GetByBatch_query tableName) [ArgInt batch] w of
           (Some e, w') \<Rightarrow> (Inl failed, w')
         | (None, w') \<Rightarrow>
             (if table_exists w'
              then (Inr (sort_key mr_Name (filter (\<lambda>r. mr_Batch r = batch) (rows w'))), w')
              else (Inl failed, w')))"

text \<open>\<open>COALESCE(MAX(batch), 0)\<close>.\<close>

definition max_batch :: "MigrationRecord list \<Rightarrow> int" where
  "max_batch rs = (case map mr_Batch rs of [] \<Rightarrow> 0 | b # bs \<Rightarrow> fold max bs b)"

definition GetLastBatchNumber :: "string \<Rightarrow> world \<Rightarrow> (error + int) \<times> world" where
  "GetLastBatchNumber tableName w =
     (case db_send (GetLastBatchNumber_query tableName) [] w of
        (Some e, w') \<Rightarrow> (Inl (wrap_sentinel ''get last batch number: '' ErrTrackingTable), w')
      | (None, w') \<Rightarrow>
          (if table_exists w' then (Inr (max_batch (rows w')), w')
           else (Inl (wrap_sentinel ''get last batch number: '' ErrTrackingTable), w')))"

text \<open>The insert fails when the table is missing or the name is there already (UNIQUE).\<close>

definition Tracker_Record :: "string \<Rightarrow> string \<Rightarrow> int \<Rightarrow> world \<Rightarrow> error option \<times> world" where
  "Tracker_Record tableName name batch w =
     (let failed = wrap_sentinel (''record migration '' @ fmt_q name @ '': '') ErrTrackingTable
      in case db_send (Record_query tableName) [ArgString name, ArgInt batch] w of
           (Some e, w') \<Rightarrow> (Some failed, w')
         | (None, w') \<Rightarrow>
             (if table_exists w' \<and> name \<notin> mr_Name ` set (rows w')
              then (None, w'\<lparr>rows := rows w' @
                      [\<lparr>mr_Name = name, mr_Batch = batch, mr_CreatedAt = clock w'\<rparr>]\<rparr>)
              else (Some failed, w')))"

definition Tracker_Remove :: "string \<Rightarrow> string \<Rightarrow> world \<Rightarrow> error option \<times> world" where
  "Tracker_Remove tableName name w =
     (let failed = wrap_sentinel (''remove migration '' @ fmt_q name @ '': '') ErrTrackingTable
      in case db_send (Remove_query tableName) [ArgString name] w of
           (Some e, w') \<Rightarrow> (Some failed, w')
         | (None, w') \<Rightarrow>
             (if table_exists w'
              then (None, w'\<lparr>rows := filter (\<lambda>r. mr_Name r \<noteq> name) (rows w')\<rparr>)
              else (Some failed, w')))"

section \<open>BatchManager\<close>

definition NextBatchNumber :: "string \<Rightarrow> world \<Rightarrow> (error + int) \<times> world" where
  "NextBatchNumber tableName w =
     (case GetLastBatchNumber tableName w of
        (Inl e, w') \<Rightarrow> (Inl (wrap ''next batch number: '' e), w')
      | (Inr lastBatch, w') \<Rightarrow> (Inr (lastBatch + 1), w'))"

definition GetLastBatch :: "string \<Rightarrow> world \<Rightarrow> (error + MigrationRecord list) \<times> world" where
  "GetLastBatch tableName w =
     (case GetLastBatchNumber tableName w of
        (Inl e, w') \<Rightarrow> (Inl (wrap ''get last batch: '' e), w')
      | (Inr lastBatch, w') \<Rightarrow>
          (if lastBatch = 0 then (Inr [], w')
           else case GetByBatch tableName lastBatch w' of
                  (Inl e, w'') \<Rightarrow> (Inl (wrap ''get last batch: '' e), w'')
                | (Inr records, w'') \<Rightarrow> (Inr records, w'')))"

definition GetLastNMigrations ::
  "string \<Rightarrow> int \<Rightarrow> world \<Rightarrow> (error + MigrationRecord list) \<times> world" where
  "GetLastNMigrations tableName n w =
     (if n \<le> 0 then (Inr [], w)
      else case GetApplied tableName w of
             (Inl e, w') \<Rightarrow> (Inl (wrap (''get last '' @ fmt_d n @ '' migrations: '') e), w')
           | (Inr applied, w') \<Rightarrow>
               (if length applied = 0 then (Inr [], w')
                else (let n' = (if n > int (length applied) then length applied else nat n)
                      in (Inr (map (\<lambda>i. applied ! (length applied - 1 - i)) [0..<n']), w'))))"

section \<open>Hooks\<close>

text \<open>
  A hook is host code; it is given the migration name and the direction. The duration an
  after-hook also receives is wall-clock time and what an after-hook returns is dropped,
  so an after-hook is its being called.
\<close>

record HookManager =
  beforeHooks :: "(string \<Rightarrow> string \<Rightarrow> error option) list"
  afterHooks :: "(string \<Rightarrow> string \<Rightarrow> error option) list"

definition NewHookManager :: HookManager where
  "NewHookManager = \<lparr>beforeHooks = [], afterHooks = []\<rparr>"

fun run_before :: "(string \<Rightarrow> string \<Rightarrow> error option) list \<Rightarrow> string \<Rightarrow> string \<Rightarrow> world
    \<Rightarrow> error option \<times> world" where
  "run_before [] name direction w = (None, w)"
| "run_before (fn # fns) name direction w =
     (let w' = w\<lparr>trace := trace w @ [BeforeHook name direction]\<rparr>
      in case fn name direction of
           Some err \<Rightarrow> (Some err, w')
         | None \<Rightarrow> run_before fns name direction w')"

definition RunBefore :: "HookManager \<Rightarrow> string \<Rightarrow> string \<Rightarrow> world \<Rightarrow> error option \<times> world" where
  "RunBefore h name direction w = run_before (beforeHooks h) name direction w"

fun run_after :: "(string \<Rightarrow> string \<Rightarrow> error option) list \<Rightarrow> string \<Rightarrow> string \<Rightarrow> world
    \<Rightarrow> world" where
  "run_after [] name direction w = w"
| "run_after (fn # fns) name direction w =
     run_after fns name direction (w\<lparr>trace := trace w @ [AfterHook name direction]\<rparr>)"

definition RunAfter :: "HookManager \<Rightarrow> string \<Rightarrow> string \<Rightarrow> world \<Rightarrow> error option \<times> world" where
  "RunAfter h name direction w = (None, run_after (afterHooks h) name direction w)"

section \<open>Runner\<close>

definition runMigration :: "Migration \<Rightarrow> string \<Rightarrow> world \<Rightarrow> error option \<times> world" where
  "runMigration m direction w =
     (if direction = ''up'' then (up_body m, w\<lparr>trace := trace w @ [Body m ''up'']\<rparr>)
      else if direction = ''down'' then (down_body m, w\<lparr>trace := trace w @ [Body m ''down'']\<rparr>)
      else (Some (Err (''unknown migration direction: '' @ fmt_q direction) Opaque), w))"

definition ExecuteInTransaction :: "Migration \<Rightarrow> string \<Rightarrow> world \<Rightarrow> error option \<times> world" where
  "ExecuteInTransaction m direction w =
     (case db_io w of
        (Some err, w1) \<Rightarrow> (Some (wrap ''begin transaction: '' err), w1)
      | (None, w1) \<Rightarrow>
          (case runMigration m direction w1 of
             (Some err, w2) \<Rightarrow>
               (case db_io w2 of
                  (Some rbErr, w3) \<Rightarrow>
                    (Some (Err (''rollback after migration error: '' @ message rbErr @
                                '', original: '' @ message err) (kind err)), w3)
                | (None, w3) \<Rightarrow> (Some err, w3))
           | (None, w2) \<Rightarrow>
               (case db_io w2 of
                  (Some err, w3) \<Rightarrow>
                    (case db_io w3 of
                       (Some rbErr, w4) \<Rightarrow>
                         (Some (wrap_sentinel (''rollback after commit failure: '' @
                                  message rbErr @ '': '') ErrTransactionFailed), w4)
                     | (None, w4) \<Rightarrow> (Some (wrap_sentinel ''commit: '' ErrTransactionFailed), w4))
                | (None, w3) \<Rightarrow> (None, w3))))"

definition executeWithoutTransaction ::
  "Migration \<Rightarrow> string \<Rightarrow> world \<Rightarrow> error option \<times> world" where
  "executeWithoutTransaction m direction w = runMigration m direction w"

definition Execute :: "Migration \<Rightarrow> string \<Rightarrow> world \<Rightarrow> error option \<times> world" where
  "Execute m direction w =
     (if DisableTransaction m = Some True then executeWithoutTransaction m direction w
      else ExecuteInTransaction m direction w)"

section \<open>Migrator\<close>

record Migrator =
  registry :: Registry
  hooks :: HookManager
  grammar :: "Grammar option"
  tableName :: string

definition reverseRecords :: "MigrationRecord list \<Rightarrow> MigrationRecord list" where
  "reverseRecords records = rev records"

text \<open>One turn of the loop of \<open>Up\<close>.\<close>

definition up_one :: "Migrator \<Rightarrow> int \<Rightarrow> registeredMigration \<Rightarrow> world \<Rightarrow> error option \<times> world" where
  "up_one m batchNumber p w =
     (case RunBefore (hooks m) (reg_Name p) ''up'' w of
        (Some err, w1) \<Rightarrow>
          (Some (wrap (''before hook for '' @ fmt_q (reg_Name p) @ '': '') err), w1)
      | (None, w1) \<Rightarrow>
          (case Execute (reg_Migration p) ''up'' w1 of
             (Some err, w2) \<Rightarrow>
               (Some (wrap (''migration '' @ fmt_q (reg_Name p) @ '' up: '') err), w2)
           | (None, w2) \<Rightarrow>
               (case Tracker_Record (tableName m) (reg_Name p) batchNumber w2 of
                  (Some err, w3) \<Rightarrow> (Some err, w3)
                | (None, w3) \<Rightarrow> (None, snd (RunAfter (hooks m) (reg_Name p) ''up'' w3)))))"

fun up_loop :: "Migrator \<Rightarrow> int \<Rightarrow> registeredMigration list \<Rightarrow> world \<Rightarrow> error option \<times> world" where
  "up_loop m batchNumber [] w = (None, w)"
| "up_loop m batchNumber (p # ps) w =
     (case up_one m batchNumber p w of
        (Some err, w') \<Rightarrow> (Some err, w')
      | (None, w') \<Rightarrow> up_loop m batchNumber ps w')"

definition pending_of :: "registeredMigration list \<Rightarrow> MigrationRecord list \<Rightarrow> registeredMigration list" where
  "pending_of registered applied =
     (let appliedSet = set (map mr_Name applied)
      in filter (\<lambda>reg. reg_Name reg \<notin> appliedSet) registered)"

definition Up :: "Migrator \<Rightarrow> world \<Rightarrow> error option \<times> world" where
  "Up m w =
     (case EnsureTable (tableName m) w of
        (Some err, w1) \<Rightarrow> (Some err, w1)
      | (None, w1) \<Rightarrow>
          (let registered = Registry_GetAll (registry m)
           in case GetApplied (tableName m) w1 of
                (Inl err, w2) \<Rightarrow> (Some err, w2)
              | (Inr applied, w2) \<Rightarrow>
                  (let pending = pending_of registered applied
                   in if length pending = 0 then (None, w2)
                      else case NextBatchNumber (tableName m) w2 of
                             (Inl err, w3) \<Rightarrow> (Some err, w3)
                           | (Inr batchNumber, w3) \<Rightarrow> up_loop m batchNumber pending w3)))"

text \<open>One turn of the loop of \<open>Rollback\<close>, and one of the loop of \<open>Reset\<close>.\<close>

definition rollback_one :: "Migrator \<Rightarrow> MigrationRecord \<Rightarrow> world \<Rightarrow> error option \<times> world" where
  "rollback_one m rec w =
     (case Registry_Get (registry m) (mr_Name rec) of
        Inl err \<Rightarrow> (Some err, w)
      | Inr migration \<Rightarrow>
          (case RunBefore (hooks m) (mr_Name rec) ''down'' w of
             (Some err, w1) \<Rightarrow>
               (Some (wrap (''before hook for '' @ fmt_q (mr_Name rec) @ '': '') err), w1)
           | (None, w1) \<Rightarrow>
               (case Execute migration ''down'' w1 of
                  (Some err, w2) \<Rightarrow>
                    (Some (wrap (''migration '' @ fmt_q (mr_Name rec) @ '' down: '') err), w2)
                | (None, w2) \<Rightarrow>
                    (case Tracker_Remove (tableName m) (mr_Name rec) w2 of
                       (Some err, w3) \<Rightarrow> (Some err, w3)
                     | (None, w3) \<Rightarrow>
                         (None, snd (RunAfter (hooks m) (mr_Name rec) ''down'' w3))))))"

fun rollback_loop :: "Migrator \<Rightarrow> MigrationRecord list \<Rightarrow> world \<Rightarrow> error option \<times> world" where
  "rollback_loop m [] w = (None, w)"
| "rollback_loop m (rec # recs) w =
     (case rollback_one m rec w of
        (Some err, w') \<Rightarrow> (Some err, w')
      | (None, w') \<Rightarrow> rollback_loop m recs w')"

definition Rollback :: "Migrator \<Rightarrow> int \<Rightarrow> world \<Rightarrow> error option \<times> world" where
  "Rollback m steps w =
     (case EnsureTable (tableName m) w of
        (Some err, w1) \<Rightarrow> (Some err, w1)
      | (None, w1) \<Rightarrow>
          (case (if steps = 0 then GetLastBatch (tableName m) w1
                 else GetLastNMigrations (tableName m) steps w1) of
             (Inl err, w2) \<Rightarrow> (Some err, w2)
           | (Inr records, w2) \<Rightarrow>
               (if length records = 0 then (None, w2)
                else (let records = (if steps = 0 then reverseRecords records else records)
                      in rollback_loop m records w2))))"

definition reset_one :: "Migrator \<Rightarrow> MigrationRecord \<Rightarrow> world \<Rightarrow> error option \<times> world" where
  "reset_one m rec w =
     (case Registry_Get (registry m) (mr_Name rec) of
        Inl err \<Rightarrow> (Some err, w)
      | Inr migration \<Rightarrow>
          (case Execute migration ''down'' w of
             (Some err, w2) \<Rightarrow>
               (Some (wrap (''migration '' @ fmt_q (mr_Name rec) @ '' down: '') err), w2)
           | (None, w2) \<Rightarrow>
               (case Tracker_Remove (tableName m) (mr_Name rec) w2 of
                  (Some err, w3) \<Rightarrow> (Some err, w3)
                | (None, w3) \<Rightarrow>
                    (None, snd (RunAfter (hooks m) (mr_Name rec) ''down'' w3)))))"

fun reset_loop :: "Migrator \<Rightarrow> MigrationRecord list \<Rightarrow> world \<Rightarrow> error option \<times> world" where
  "reset_loop m [] w = (None, w)"
| "reset_loop m (rec # recs) w =
     (case reset_one m rec w of
        (Some err, w') \<Rightarrow> (Some err, w')
      | (None, w') \<Rightarrow> reset_loop m recs w')"

definition Reset :: "Migrator \<Rightarrow> world \<Rightarrow> error option \<times> world" where
  "Reset m w =
     (case EnsureTable (tableName m) w of
        (Some err, w1) \<Rightarrow> (Some err, w1)
      | (None, w1) \<Rightarrow>
          (case GetApplied (tableName m) w1 of
             (Inl err, w2) \<Rightarrow> (Some err, w2)
           | (Inr applied, w2) \<Rightarrow> reset_loop m (reverseRecords applied) w2))"

definition Refresh :: "Migrator \<Rightarrow> world \<Rightarrow> error option \<times> world" where
  "Refresh m w =
     (case Reset m w of
        (Some err, w1) \<Rightarrow> (Some (wrap ''refresh reset phase: '' err), w1)
      | (None, w1) \<Rightarrow>
          (case Up m w1 of
             (Some err, w2) \<Rightarrow> (Some (wrap ''refresh up phase: '' err), w2)
           | (None, w2) \<Rightarrow> (None, w2)))"

definition Fresh :: "Migrator \<Rightarrow> world \<Rightarrow> error option \<times> world" where
  "Fresh m w =
     (case grammar m of
        None \<Rightarrow> (Some (Err ''fresh requires a grammar: configure with WithGrammar'' Opaque), w)
      | Some g \<Rightarrow>
          (let dropSQL = CompileDropAllTables g
           in case db_Exec dropSQL w of
                (Some err, w1) \<Rightarrow> (Some (wrap ''drop all tables: '' err), w1)
              | (None, w1) \<Rightarrow> Up m w1))"

section \<open>What the migrator is expected to do, and concrete migrators\<close>

definition same_table :: "world \<Rightarrow> world \<Rightarrow> bool" where
  "same_table w w' \<longleftrightarrow>
     rows w' = rows w \<and> table_exists w' = table_exists w \<and> clock w' = clock w"

definition applied_row :: "int \<Rightarrow> nat \<Rightarrow> registeredMigration \<Rightarrow> MigrationRecord" where
  "applied_row batch now p = \<lparr>mr_Name = reg_Name p, mr_Batch = batch, mr_CreatedAt = now\<rparr>"

definition up_events :: "Migrator \<Rightarrow> registeredMigration \<Rightarrow> event list" where
  "up_events m p =
     replicate (length (beforeHooks (hooks m))) (BeforeHook (reg_Name p) ''up'') @
     [Body (reg_Migration p) ''up''] @
     replicate (length (afterHooks (hooks m))) (AfterHook (reg_Name p) ''up'')"

definition rollback_events :: "Migrator \<Rightarrow> MigrationRecord \<Rightarrow> event list" where
  "rollback_events m rec =
     (case Registry_Get (registry m) (mr_Name rec) of
        Inl err \<Rightarrow> []
      | Inr migration \<Rightarrow>
          replicate (length (beforeHooks (hooks m))) (BeforeHook (mr_Name rec) ''down'') @
          [Body migration ''down''] @
          replicate (length (afterHooks (hooks m))) (AfterHook (mr_Name rec) ''down''))"

definition rollback_targets :: "int \<Rightarrow> MigrationRecord list \<Rightarrow> MigrationRecord list" where
  "rollback_targets steps rs =
     (if steps = 0
      then rev (sort_key mr_Name (filter (\<lambda>r. mr_Batch r = max_batch rs) rs))
      else take (nat steps) (rev (sort_key mr_Name rs)))"

definition reset_events :: "Migrator \<Rightarrow> MigrationRecord \<Rightarrow> event list" where
  "reset_events m rec =
     (case Registry_Get (registry m) (mr_Name rec) of
        Inl err \<Rightarrow> []
      | Inr migration \<Rightarrow>
          [Body migration ''down''] @
          replicate (length (afterHooks (hooks m))) (AfterHook (mr_Name rec) ''down''))"

definition without_before_hooks :: "Migrator \<Rightarrow> Migrator" where
  "without_before_hooks m = m\<lparr>hooks := (hooks m)\<lparr>beforeHooks := []\<rparr>\<rparr>"

definition failing_migration :: Migration where
  "failing_migration =
     \<lparr>up_body = Some (Err ''up failed'' Opaque), down_body = Some (Err ''down failed'' Opaque),
      DisableTransaction = None\<rparr>"

definition mig_a :: registeredMigration where
  "mig_a = \<lparr>reg_Name = ''20240101000000_a'', reg_Migration = noop_migration\<rparr>"

definition mig_b :: registeredMigration where
  "mig_b = \<lparr>reg_Name = ''20240102000000_b'', reg_Migration = noop_migration\<rparr>"

definition mig_b_failing :: registeredMigration where
  "mig_b_failing = \<lparr>reg_Name = ''20240102000000_b'', reg_Migration = failing_migration\<rparr>"

definition mig_c :: registeredMigration where
  "mig_c = \<lparr>reg_Name = ''20240103000000_c'', reg_Migration = noop_migration\<rparr>"

definition passing_hooks :: HookManager where
  "passing_hooks =
     \<lparr>beforeHooks = [\<lambda>name direction. None], afterHooks = [\<lambda>name direction. None]\<rparr>"

definition vetoing_hooks :: HookManager where
  "vetoing_hooks =
     \<lparr>beforeHooks = [\<lambda>name direction. Some (Err ''not now'' Opaque)],
      afterHooks = [\<lambda>name direction. None]\<rparr>"

definition migrator_ab :: Migrator where
  "migrator_ab =
     \<lparr>registry = [mig_a, mig_b], hooks = passing_hooks, grammar = None,
      tableName = ''migrations''\<rparr>"

definition migrator_abc :: Migrator where
  "migrator_abc =
     \<lparr>registry = [mig_a, mig_b_failing, mig_c], hooks = passing_hooks, grammar = None,
      tableName = ''migrations''\<rparr>"

definition migrator_unregistered :: Migrator where
  "migrator_unregistered =
     \<lparr>registry = NewRegistry, hooks = passing_hooks, grammar = None,
      tableName = ''migrations''\<rparr>"

definition migrator_veto :: Migrator where
  "migrator_veto =
     \<lparr>registry = [mig_a], hooks = vetoing_hooks, grammar = None, tableName = ''migrations''\<rparr>"

definition migrator_sqlite :: Migrator where
  "migrator_sqlite =
     \<lparr>registry = [mig_a, mig_b], hooks = passing_hooks, grammar = Some SQLiteGrammar,
      tableName = ''migrations''\<rparr>"

definition empty_world :: world where
  "empty_world =
     \<lparr>rows = [], table_exists = False, statements = [], trace = [], faults = [], clock = 0\<rparr>"

definition row_a :: MigrationRecord where
  "row_a = \<lparr>mr_Name = ''20240101000000_a'', mr_Batch = 1, mr_CreatedAt = 0\<rparr>"

definition row_b :: MigrationRecord where
  "row_b = \<lparr>mr_Name = ''20240102000000_b'', mr_Batch = 1, mr_CreatedAt = 0\<rparr>"

definition row_c :: MigrationRecord where
  "row_c = \<lparr>mr_Name = ''20240103000000_c'', mr_Batch = 1, mr_CreatedAt = 0\<rparr>"

definition world_of :: "MigrationRecord list \<Rightarrow> world" where
  "world_of rs =
     \<lparr>rows = rs, table_exists = True, statements = [], trace = [], faults = [], clock = 0\<rparr>"

definition prepared_world :: world where
  "prepared_world =
     \<lparr>rows = [], table_exists = True,
      statements = [(EnsureTable_query ''migrations'', []), (GetApplied_query ''migrations'', []),
                    (GetLastBatchNumber_query ''migrations'', [])],
      trace = [], faults = [], clock = 0\<rparr>"

section \<open>Seeders: registry and dependency resolution\<close>
















section \<open>The dependency graph of a seeder registry\<close>


















section \<open>Properties\<close>

subsection \<open>Strings\<close>

lemma has_prefix_append: "has_prefix (sub @ post) sub"
  by (induction sub) simp_all

lemma has_prefix_iff: "has_prefix s sub \<longleftrightarrow> (\<exists>post. s = sub @ post)"
  by (induction s sub rule: has_prefix.induct) auto

lemma strings_Contains_iff: "strings_Contains s sub \<longleftrightarrow> (\<exists>pre post. s = pre @ sub @ post)"
proof (induction s)
  case Nil
  then show ?case by auto
next
  case (Cons c cs)
  show ?case
  proof
    assume "strings_Contains (c # cs) sub"
    then consider "has_prefix (c # cs) sub" | "strings_Contains cs sub" by auto
    then show "\<exists>pre post. c # cs = pre @ sub @ post"
    proof cases
      case 1
      then obtain post where "c # cs = sub @ post" by (auto simp: has_prefix_iff)
      then have "c # cs = [] @ sub @ post" by simp
      then show ?thesis by blast
    next
      case 2
      then obtain pre post where "cs = pre @ sub @ post" using Cons.IH by blast
      then have "c # cs = (c # pre) @ sub @ post" by simp
      then show ?thesis by blast
    qed
  next
    assume "\<exists>pre post. c # cs = pre @ sub @ post"
    then obtain pre post where eq: "c # cs = pre @ sub @ post" by blast
    show "strings_Contains (c # cs) sub"
    proof (cases pre)
      case Nil
      with eq have "has_prefix (c # cs) sub" by (auto simp: has_prefix_iff)
      then show ?thesis by simp
    next
      case (Cons p ps)
      with eq have "cs = ps @ sub @ post" by simp
      then have "strings_Contains cs sub" using Cons.IH by blast
      then show ?thesis by simp
    qed
  qed
qed

lemma strings_Contains_mid: "strings_Contains (pre @ sub @ post) sub"
  by (auto simp: strings_Contains_iff)










subsection \<open>Migration registry\<close>

declare sort_Search_loop.simps [simp del]

text \<open>On a monotone predicate the loop finds the boundary.\<close>

lemma sort_Search_loop_boundary:
  shows "(\<forall>a b. a \<le> b \<and> b < n \<and> f a \<longrightarrow> f b) \<Longrightarrow> i \<le> j \<Longrightarrow> j \<le> n \<Longrightarrow> (\<forall>k<i. \<not> f k) \<Longrightarrow> (\<forall>k. j \<le> k \<and> k < n \<longrightarrow> f k) \<Longrightarrow>
         sort_Search_loop f i j \<le> n \<and>
         (\<forall>k < sort_Search_loop f i j. \<not> f k) \<and>
         (\<forall>k. sort_Search_loop f i j \<le> k \<and> k < n \<longrightarrow> f k)"
proof (induction f i j rule: sort_Search_loop.induct)
  case (1 f i j)
  have mono: "\<And>a b. a \<le> b \<Longrightarrow> b < n \<Longrightarrow> f a \<Longrightarrow> f b"
    using "1.prems"(1) by blast
  show ?case
  proof (cases "i < j")
    case False
    have res: "sort_Search_loop f i j = i"
      using False by (simp add: sort_Search_loop.simps[of f i j])
    from False "1.prems"(2) have "i = j" by simp
    with "1.prems"(3,4,5) show ?thesis unfolding res by simp
  next
    case True
    define h where "h = (i + j) div 2"
    have hb: "i \<le> h" "h < j" using True by (auto simp: h_def)
    show ?thesis
    proof (cases "f h")
      case False
      have below: "\<forall>k<h + 1. \<not> f k"
      proof (intro allI impI)
        fix k assume "k < h + 1"
        then have "k \<le> h" by simp
        show "\<not> f k"
        proof
          assume "f k"
          moreover have "h < n" using hb "1.prems"(3) by simp
          ultimately have "f h" using mono[OF \<open>k \<le> h\<close>] by blast
          with False show False by simp
        qed
      qed
      have "sort_Search_loop f i j = sort_Search_loop f (h + 1) j"
        using True False by (simp add: sort_Search_loop.simps[of f i j] h_def Let_def)
      moreover have "sort_Search_loop f (h + 1) j \<le> n \<and>
         (\<forall>k < sort_Search_loop f (h + 1) j. \<not> f k) \<and>
         (\<forall>k. sort_Search_loop f (h + 1) j \<le> k \<and> k < n \<longrightarrow> f k)"
      proof (rule "1.IH"(1)[OF True h_def False "1.prems"(1)])
        show "h + 1 \<le> j" using hb by simp
        show "j \<le> n" by (rule "1.prems"(3))
        show "\<forall>k<h + 1. \<not> f k" by (rule below)
        show "\<forall>k. j \<le> k \<and> k < n \<longrightarrow> f k" by (rule "1.prems"(5))
      qed
      ultimately show ?thesis by simp
    next
      case fh: True
      have above: "\<forall>k. h \<le> k \<and> k < n \<longrightarrow> f k"
        using mono fh by blast
      have "sort_Search_loop f i j = sort_Search_loop f i h"
        using True fh by (simp add: sort_Search_loop.simps[of f i j] h_def Let_def)
      moreover have "sort_Search_loop f i h \<le> n \<and>
         (\<forall>k < sort_Search_loop f i h. \<not> f k) \<and>
         (\<forall>k. sort_Search_loop f i h \<le> k \<and> k < n \<longrightarrow> f k)"
      proof (rule "1.IH"(2)[OF True h_def _ "1.prems"(1)])
        show "\<not> \<not> f h" using fh by simp
        show "i \<le> h" using hb by simp
        show "h \<le> n" using hb "1.prems"(3) by simp
        show "\<forall>k<i. \<not> f k" by (rule "1.prems"(4))
        show "\<forall>k. h \<le> k \<and> k < n \<longrightarrow> f k" by (rule above)
      qed
      ultimately show ?thesis by simp
    qed
  qed
qed

lemma search_insertion_point:
  fixes name :: string
  assumes srt: "sorted_wrt (<) (map reg_Name r)"
  defines "idx \<equiv> sort_Search (length r) (\<lambda>i. reg_Name (r ! i) \<ge> name)"
  shows "idx \<le> length r"
    and "\<forall>k<idx. reg_Name (r ! k) < name"
    and "\<forall>k. idx \<le> k \<and> k < length r \<longrightarrow> name \<le> reg_Name (r ! k)"
proof -
  let ?f = "\<lambda>i. reg_Name (r ! i) \<ge> name"
  have mono: "\<forall>a b. a \<le> b \<and> b < length r \<and> ?f a \<longrightarrow> ?f b"
  proof (intro allI impI)
    fix a b assume h: "a \<le> b \<and> b < length r \<and> name \<le> reg_Name (r ! a)"
    show "name \<le> reg_Name (r ! b)"
    proof (cases "a = b")
      case True with h show ?thesis by simp
    next
      case False
      with h have "a < b" by simp
      with h have "map reg_Name r ! a < map reg_Name r ! b"
        using sorted_wrt_nth_less[OF srt, of a b] by simp
      with h have "reg_Name (r ! a) < reg_Name (r ! b)" by simp
      moreover have "name \<le> reg_Name (r ! a)" using h by simp
      ultimately have "name < reg_Name (r ! b)" by (rule le_less_trans[rotated])
      then show ?thesis by (rule less_imp_le)
    qed
  qed
  have "sort_Search_loop ?f 0 (length r) \<le> length r \<and>
        (\<forall>k < sort_Search_loop ?f 0 (length r). \<not> ?f k) \<and>
        (\<forall>k. sort_Search_loop ?f 0 (length r) \<le> k \<and> k < length r \<longrightarrow> ?f k)"
    by (rule sort_Search_loop_boundary[OF mono]) auto
  then show "idx \<le> length r"
    and "\<forall>k<idx. reg_Name (r ! k) < name"
    and "\<forall>k. idx \<le> k \<and> k < length r \<longrightarrow> name \<le> reg_Name (r ! k)"
    by (simp_all add: idx_def sort_Search_def not_le)
qed

lemma Register_invalid:
  "\<not> namePattern_MatchString name \<Longrightarrow>
   Registry_Register r name m =
     (Some (wrap_sentinel (''migration name '' @ fmt_q name @ '': '') ErrInvalidMigrationName), r)"
  by (simp add: Registry_Register_def)

lemma Register_duplicate:
  "namePattern_MatchString name \<Longrightarrow> name \<in> reg_Name ` set r \<Longrightarrow>
   Registry_Register r name m =
     (Some (wrap_sentinel (''migration name '' @ fmt_q name @ '': '') ErrDuplicateMigration), r)"
  by (auto simp add: Registry_Register_def)

lemma Register_inserts:
  assumes srt: "sorted_wrt (<) (map reg_Name r)"
    and ok: "namePattern_MatchString name" and fresh: "name \<notin> reg_Name ` set r"
  shows "\<exists>r'. Registry_Register r name m = (None, r') \<and>
              sorted_wrt (<) (map reg_Name r') \<and>
              set r' = insert \<lparr>reg_Name = name, reg_Migration = m\<rparr> (set r) \<and>
              length r' = Suc (length r)"
proof -
  define idx where "idx = sort_Search (length r) (\<lambda>i. reg_Name (r ! i) \<ge> name)"
  define r' where "r' = take idx r @ \<lparr>reg_Name = name, reg_Migration = m\<rparr> # drop idx r"
  note ip = search_insertion_point[OF srt, of name, folded idx_def]
  have reg: "Registry_Register r name m = (None, r')"
    using ok fresh by (auto simp add: Registry_Register_def r'_def idx_def Let_def)
  have lo: "\<forall>x \<in> set (take idx (map reg_Name r)). x < name"
  proof
    fix x assume "x \<in> set (take idx (map reg_Name r))"
    then obtain k where "k < idx" "k < length r" "x = reg_Name (r ! k)"
      by (auto simp add: in_set_conv_nth)
    with ip(2) show "x < name" by simp
  qed
  have hi: "\<forall>y \<in> set (drop idx (map reg_Name r)). name < y"
  proof
    fix y assume "y \<in> set (drop idx (map reg_Name r))"
    then obtain k where "k < length (drop idx (map reg_Name r))"
      "drop idx (map reg_Name r) ! k = y"
      by (auto simp add: in_set_conv_nth)
    then have k: "idx + k < length r" "y = reg_Name (r ! (idx + k))"
      by auto
    then have "name \<le> y" using ip(3) by simp
    moreover have "y \<in> reg_Name ` set r" using k by simp
    then have "y \<noteq> name" using fresh by auto
    ultimately show "name < y" by simp
  qed
  have parts: "sorted_wrt (<) (take idx (map reg_Name r))" "sorted_wrt (<) (drop idx (map reg_Name r))"
    using srt by (simp_all add: sorted_wrt_take sorted_wrt_drop)
  have "map reg_Name r' = take idx (map reg_Name r) @ name # drop idx (map reg_Name r)"
    by (simp add: r'_def take_map drop_map)
  moreover have "\<forall>x \<in> set (take idx (map reg_Name r)). \<forall>y \<in> set (drop idx (map reg_Name r)). x < y"
    using lo hi by (blast intro: less_trans)
  ultimately have "sorted_wrt (<) (map reg_Name r')"
    using lo hi parts by (simp add: sorted_wrt_append)
  moreover have "set r' = insert \<lparr>reg_Name = name, reg_Migration = m\<rparr> (set r)"
  proof -
    have "set r = set (take idx r) \<union> set (drop idx r)"
      by (metis append_take_drop_id set_append)
    then show ?thesis by (auto simp add: r'_def)
  qed
  moreover have "length r' = Suc (length r)"
    using ip(1) by (simp add: r'_def)
  ultimately show ?thesis using reg by blast
qed

lemma Get_found:
  assumes srt: "sorted_wrt (<) (map reg_Name r)" and mem: "e \<in> set r"
  shows "Registry_Get r (reg_Name e) = Inr (reg_Migration e)"
proof -
  define name where "name = reg_Name e"
  define idx where "idx = sort_Search (length r) (\<lambda>i. reg_Name (r ! i) \<ge> name)"
  note ip = search_insertion_point[OF srt, of name, folded idx_def]
  from mem obtain p where p: "p < length r" "r ! p = e" by (auto simp add: in_set_conv_nth)
  have "\<not> p < idx" using ip(2) p by (auto simp add: name_def)
  then have le: "idx \<le> p" by simp
  have "idx = p"
  proof (rule ccontr)
    assume "idx \<noteq> p"
    with le have lt: "idx < p" by simp
    then have "map reg_Name r ! idx < map reg_Name r ! p"
      using sorted_wrt_nth_less[OF srt, of idx p] p by simp
    then have "reg_Name (r ! idx) < name" using p lt by (simp add: name_def)
    moreover have "name \<le> reg_Name (r ! idx)" using ip(3) lt p by simp
    ultimately show False by simp
  qed
  then show ?thesis
    using p by (simp add: Registry_Get_def Let_def idx_def[symmetric] name_def[symmetric])
qed

lemma Get_absent:
  "name \<notin> reg_Name ` set r \<Longrightarrow>
   Registry_Get r name =
     Inl (wrap_sentinel (''migration name '' @ fmt_q name @ '': '') ErrMigrationNotFound)"
proof -
  assume fresh: "name \<notin> reg_Name ` set r"
  define idx where "idx = sort_Search (length r) (\<lambda>i. reg_Name (r ! i) \<ge> name)"
  have "\<not> (idx < length r \<and> reg_Name (r ! idx) = name)"
  proof
    assume h: "idx < length r \<and> reg_Name (r ! idx) = name"
    then have "r ! idx \<in> set r" by simp
    then have "reg_Name (r ! idx) \<in> reg_Name ` set r" by (rule imageI)
    with h fresh show False by simp
  qed
  then show ?thesis
    by (simp add: Registry_Get_def Let_def idx_def[symmetric])
qed

lemma register_all_sorted:
  "sorted_wrt (<) (map reg_Name r) \<Longrightarrow> sorted_wrt (<) (map reg_Name (register_all r calls))"
proof (induction calls arbitrary: r)
  case Nil
  then show ?case by simp
next
  case (Cons c calls)
  obtain name m where c: "c = (name, m)" by (cases c)
  have "sorted_wrt (<) (map reg_Name (snd (Registry_Register r name m)))"
  proof (cases "namePattern_MatchString name")
    case False
    then show ?thesis using Cons.prems by (simp add: Register_invalid)
  next
    case valid: True
    show ?thesis
    proof (cases "name \<in> reg_Name ` set r")
      case True
      then show ?thesis using Cons.prems valid by (simp add: Register_duplicate)
    next
      case False
      then show ?thesis using Register_inserts[OF Cons.prems valid, of m] by auto
    qed
  qed
  then show ?case using Cons.IH c by simp
qed

lemma reachable_sorted: "sorted_wrt (<) (map reg_Name (register_all NewRegistry calls))"
  by (rule register_all_sorted) (simp add: NewRegistry_def)

text \<open>
  Claim C4. Let \<open>r\<close> be the registry after any sequence of \<open>Register\<close> calls. It
  is sorted ascending (strictly, so names are unique). \<open>Register r name m\<close> fails with
  \<open>ErrInvalidMigrationName\<close> when the name does not match the pattern and with
  \<open>ErrDuplicateMigration\<close> when the name is already registered, leaving the registry
  as it was; otherwise it succeeds, the new registry is sorted, holds exactly the old
  entries and the new one, and \<open>Get\<close> of the name returns the instance registered.
  \<open>Get\<close> returns the registered instance for every entry and fails with
  \<open>ErrMigrationNotFound\<close> for an absent name.
\<close>

theorem registry_contract:
  assumes r: "r = register_all NewRegistry calls"
  shows "sorted_wrt (<) (map reg_Name r) \<and>
    (\<not> namePattern_MatchString name \<longrightarrow>
       (\<exists>e. Registry_Register r name m = (Some e, r) \<and> kind e = ErrInvalidMigrationName)) \<and>
    (namePattern_MatchString name \<and> name \<in> reg_Name ` set r \<longrightarrow>
       (\<exists>e. Registry_Register r name m = (Some e, r) \<and> kind e = ErrDuplicateMigration)) \<and>
    (namePattern_MatchString name \<and> name \<notin> reg_Name ` set r \<longrightarrow>
       (\<exists>r'. Registry_Register r name m = (None, r') \<and>
             sorted_wrt (<) (map reg_Name r') \<and>
             set r' = insert \<lparr>reg_Name = name, reg_Migration = m\<rparr> (set r) \<and>
             Registry_Count r' = Suc (Registry_Count r) \<and>
             Registry_Get r' name = Inr m)) \<and>
    (\<forall>e \<in> set r. Registry_Get r (reg_Name e) = Inr (reg_Migration e)) \<and>
    (name \<notin> reg_Name ` set r \<longrightarrow>
       (\<exists>e. Registry_Get r name = Inl e \<and> kind e = ErrMigrationNotFound))"
proof (intro conjI)
  show srt: "sorted_wrt (<) (map reg_Name r)"
    unfolding r by (rule reachable_sorted)
  show "\<not> namePattern_MatchString name \<longrightarrow>
           (\<exists>e. Registry_Register r name m = (Some e, r) \<and> kind e = ErrInvalidMigrationName)"
    by (simp add: Register_invalid wrap_sentinel_def)
  show "namePattern_MatchString name \<and> name \<in> reg_Name ` set r \<longrightarrow>
           (\<exists>e. Registry_Register r name m = (Some e, r) \<and> kind e = ErrDuplicateMigration)"
    by (simp add: Register_duplicate wrap_sentinel_def)
  show "namePattern_MatchString name \<and> name \<notin> reg_Name ` set r \<longrightarrow>
           (\<exists>r'. Registry_Register r name m = (None, r') \<and>
                 sorted_wrt (<) (map reg_Name r') \<and>
                 set r' = insert \<lparr>reg_Name = name, reg_Migration = m\<rparr> (set r) \<and>
                 Registry_Count r' = Suc (Registry_Count r) \<and>
                 Registry_Get r' name = Inr m)"
  proof
    assume h: "namePattern_MatchString name \<and> name \<notin> reg_Name ` set r"
    then obtain r' where r': "Registry_Register r name m = (None, r')"
      "sorted_wrt (<) (map reg_Name r')"
      "set r' = insert \<lparr>reg_Name = name, reg_Migration = m\<rparr> (set r)"
      "length r' = Suc (length r)"
      using Register_inserts[OF srt, of name m] by blast
    have "Registry_Get r' (reg_Name \<lparr>reg_Name = name, reg_Migration = m\<rparr>) =
          Inr (reg_Migration \<lparr>reg_Name = name, reg_Migration = m\<rparr>)"
      by (rule Get_found[OF r'(2)]) (simp add: r'(3))
    then have "Registry_Get r' name = Inr m" by simp
    with r' show "\<exists>r'. Registry_Register r name m = (None, r') \<and>
                 sorted_wrt (<) (map reg_Name r') \<and>
                 set r' = insert \<lparr>reg_Name = name, reg_Migration = m\<rparr> (set r) \<and>
                 Registry_Count r' = Suc (Registry_Count r) \<and>
                 Registry_Get r' name = Inr m"
      by (simp add: Registry_Count_def)
  qed
  show "\<forall>e \<in> set r. Registry_Get r (reg_Name e) = Inr (reg_Migration e)"
    using Get_found[OF srt] by blast
  show "name \<notin> reg_Name ` set r \<longrightarrow>
           (\<exists>e. Registry_Get r name = Inl e \<and> kind e = ErrMigrationNotFound)"
    by (simp add: Get_absent wrap_sentinel_def)
qed

lemma two_calls_registry:
  "register_all NewRegistry two_calls =
     [\<lparr>reg_Name = ''20240101000000_a'', reg_Migration = noop_migration\<rparr>,
      \<lparr>reg_Name = ''20240102000000_b'', reg_Migration = noop_migration\<rparr>]"
  by code_simp

theorem registry_contract_witness:
  "namePattern_MatchString ''20240103000000_c'' \<and>
   ''20240103000000_c'' \<notin> reg_Name ` set (register_all NewRegistry two_calls) \<and>
   (\<exists>r'. Registry_Register (register_all NewRegistry two_calls) ''20240103000000_c'' noop_migration
            = (None, r') \<and>
         sorted_wrt (<) (map reg_Name r') \<and>
         Registry_Get r' ''20240103000000_c'' = Inr noop_migration) \<and>
   \<not> namePattern_MatchString ''create_users'' \<and>
   (\<exists>e. Registry_Register (register_all NewRegistry two_calls) ''create_users'' noop_migration
            = (Some e, register_all NewRegistry two_calls) \<and> kind e = ErrInvalidMigrationName) \<and>
   ''20240101000000_a'' \<in> reg_Name ` set (register_all NewRegistry two_calls) \<and>
   (\<exists>e. Registry_Register (register_all NewRegistry two_calls) ''20240101000000_a'' noop_migration
            = (Some e, register_all NewRegistry two_calls) \<and> kind e = ErrDuplicateMigration) \<and>
   Registry_Get (register_all NewRegistry two_calls) ''20240101000000_a'' = Inr noop_migration \<and>
   (\<exists>e. Registry_Get (register_all NewRegistry two_calls) ''20240103000000_c'' = Inl e \<and>
        kind e = ErrMigrationNotFound)"
proof -
  have v1: "namePattern_MatchString ''20240103000000_c''" by code_simp
  have v2: "\<not> namePattern_MatchString ''create_users''" by code_simp
  have v3: "namePattern_MatchString ''20240101000000_a''" by code_simp
  have m1: "''20240103000000_c'' \<notin> reg_Name ` set (register_all NewRegistry two_calls)"
    unfolding two_calls_registry by simp
  have m2: "''20240101000000_a'' \<in> reg_Name ` set (register_all NewRegistry two_calls)"
    unfolding two_calls_registry by simp
  have m3: "\<lparr>reg_Name = ''20240101000000_a'', reg_Migration = noop_migration\<rparr>
            \<in> set (register_all NewRegistry two_calls)"
    unfolding two_calls_registry by simp
  note c = registry_contract[OF refl, of two_calls "''20240103000000_c''" noop_migration]
  note i = registry_contract[OF refl, of two_calls "''create_users''" noop_migration]
  note d = registry_contract[OF refl, of two_calls "''20240101000000_a''" noop_migration]
  from c v1 m1 have "\<exists>r'. Registry_Register (register_all NewRegistry two_calls) ''20240103000000_c'' noop_migration
            = (None, r') \<and>
         sorted_wrt (<) (map reg_Name r') \<and>
         Registry_Get r' ''20240103000000_c'' = Inr noop_migration"
    by blast
  moreover from i v2 have "\<exists>e. Registry_Register (register_all NewRegistry two_calls) ''create_users'' noop_migration
            = (Some e, register_all NewRegistry two_calls) \<and> kind e = ErrInvalidMigrationName"
    by blast
  moreover from d v3 m2 have "\<exists>e. Registry_Register (register_all NewRegistry two_calls) ''20240101000000_a'' noop_migration
            = (Some e, register_all NewRegistry two_calls) \<and> kind e = ErrDuplicateMigration"
    by blast
  moreover have "Registry_Get (register_all NewRegistry two_calls) ''20240101000000_a'' = Inr noop_migration"
  proof -
    from d have "\<forall>e \<in> set (register_all NewRegistry two_calls).
        Registry_Get (register_all NewRegistry two_calls) (reg_Name e) = Inr (reg_Migration e)"
      by (elim conjE)
    from bspec[OF this m3] show ?thesis by simp
  qed
  moreover from c m1 have "\<exists>e. Registry_Get (register_all NewRegistry two_calls) ''20240103000000_c'' = Inl e \<and>
        kind e = ErrMigrationNotFound"
    by blast
  ultimately show ?thesis using v1 v2 m1 m2 by (intro conjI)
qed

subsection \<open>Migrator: database calls\<close>

lemma same_table_refl [simp]: "same_table w w"
  by (simp add: same_table_def)

lemma same_table_trans: "same_table w w1 \<Longrightarrow> same_table w1 w2 \<Longrightarrow> same_table w w2"
  by (simp add: same_table_def)

lemma db_io_frame:
  "db_io w = (r, w') \<Longrightarrow> same_table w w' \<and> trace w' = trace w \<and> statements w' = statements w"
  by (auto simp add: db_io_def same_table_def split: list.splits)

lemma db_io_healthy: "faults w = [] \<Longrightarrow> db_io w = (None, w)"
  by (simp add: db_io_def)

lemma db_send_frame:
  "db_send q args w = (r, w') \<Longrightarrow>
     same_table w w' \<and> trace w' = trace w \<and> statements w' = statements w @ [(q, args)]"
  by (auto simp add: db_send_def db_io_def same_table_def split: list.splits)

lemma db_send_healthy:
  "faults w = [] \<Longrightarrow> db_send q args w = (None, w\<lparr>statements := statements w @ [(q, args)]\<rparr>)"
  by (simp add: db_send_def db_io_def)

subsection \<open>Tracker calls\<close>

lemma EnsureTable_frame:
  "EnsureTable t w = (r, w') \<Longrightarrow>
     rows w' = rows w \<and> clock w' = clock w \<and> trace w' = trace w \<and>
     statements w' = statements w @ [(EnsureTable_query t, [])] \<and>
     (r = None \<longrightarrow> table_exists w')"
  by (auto simp add: EnsureTable_def same_table_def split: prod.splits option.splits
      dest!: db_send_frame)

lemma GetApplied_frame:
  "GetApplied t w = (r, w') \<Longrightarrow>
     same_table w w' \<and> trace w' = trace w \<and>
     statements w' = statements w @ [(GetApplied_query t, [])] \<and>
     (\<forall>applied. r = Inr applied \<longrightarrow> applied = sort_key mr_Name (rows w))"
  by (auto simp add: GetApplied_def same_table_def split: prod.splits option.splits if_splits
      dest!: db_send_frame)

lemma GetByBatch_frame:
  "GetByBatch t b w = (r, w') \<Longrightarrow>
     same_table w w' \<and> trace w' = trace w \<and>
     statements w' = statements w @ [(GetByBatch_query t, [ArgInt b])] \<and>
     (\<forall>rs. r = Inr rs \<longrightarrow> rs = sort_key mr_Name (filter (\<lambda>r. mr_Batch r = b) (rows w)))"
  by (auto simp add: GetByBatch_def same_table_def Let_def split: prod.splits option.splits if_splits
      dest!: db_send_frame)

lemma GetLastBatchNumber_frame:
  "GetLastBatchNumber t w = (r, w') \<Longrightarrow>
     same_table w w' \<and> trace w' = trace w \<and>
     statements w' = statements w @ [(GetLastBatchNumber_query t, [])] \<and>
     (\<forall>b. r = Inr b \<longrightarrow> b = max_batch (rows w))"
  by (auto simp add: GetLastBatchNumber_def same_table_def split: prod.splits option.splits if_splits
      dest!: db_send_frame)

lemma Tracker_Record_frame:
  "Tracker_Record t name b w = (r, w') \<Longrightarrow>
     table_exists w' = table_exists w \<and> clock w' = clock w \<and> trace w' = trace w \<and>
     statements w' = statements w @ [(Record_query t, [ArgString name, ArgInt b])] \<and>
     (case r of
        None \<Rightarrow> rows w' = rows w @ [\<lparr>mr_Name = name, mr_Batch = b, mr_CreatedAt = clock w\<rparr>]
      | Some e \<Rightarrow> rows w' = rows w \<and> kind e = ErrTrackingTable)"
  by (auto simp add: Tracker_Record_def same_table_def Let_def wrap_sentinel_def
      split: prod.splits option.splits if_splits dest!: db_send_frame)

lemma Tracker_Remove_frame:
  "Tracker_Remove t name w = (r, w') \<Longrightarrow>
     table_exists w' = table_exists w \<and> clock w' = clock w \<and> trace w' = trace w \<and>
     statements w' = statements w @ [(Remove_query t, [ArgString name])] \<and>
     (case r of
        None \<Rightarrow> rows w' = filter (\<lambda>r. mr_Name r \<noteq> name) (rows w)
      | Some e \<Rightarrow> rows w' = rows w \<and> kind e = ErrTrackingTable)"
  by (auto simp add: Tracker_Remove_def same_table_def Let_def wrap_sentinel_def
      split: prod.splits option.splits if_splits dest!: db_send_frame)

subsection \<open>Hooks and the runner\<close>

lemma run_before_frame:
  "run_before fns name d w = (r, w') \<Longrightarrow>
     same_table w w' \<and> statements w' = statements w \<and> faults w' = faults w"
  by (induction fns arbitrary: w) (auto simp add: same_table_def Let_def split: option.splits)

lemma run_after_frame:
  "same_table w (run_after fns name d w) \<and> statements (run_after fns name d w) = statements w \<and>
   faults (run_after fns name d w) = faults w \<and>
   trace (run_after fns name d w) = trace w @ replicate (length fns) (AfterHook name d)"
proof (induction fns arbitrary: w)
  case Nil
  then show ?case by simp
next
  case (Cons fn fns)
  show ?case
    using Cons.IH[of "w\<lparr>trace := trace w @ [AfterHook name d]\<rparr>"]
    by (simp add: same_table_def replicate_append_same)
qed

lemma run_before_pass:
  "\<forall>fn \<in> set fns. fn name d = None \<Longrightarrow>
   run_before fns name d w =
     (None, w\<lparr>trace := trace w @ replicate (length fns) (BeforeHook name d)\<rparr>)"
proof (induction fns arbitrary: w)
  case Nil
  then show ?case by simp
next
  case (Cons fn fns)
  then show ?case by (simp add: Let_def replicate_append_same)
qed

lemma runMigration_frame:
  "runMigration m d w = (r, w') \<Longrightarrow>
     same_table w w' \<and> statements w' = statements w \<and> faults w' = faults w"
  by (auto simp add: runMigration_def same_table_def split: if_splits)

lemma Execute_frame:
  "Execute m d w = (r, w') \<Longrightarrow> same_table w w' \<and> statements w' = statements w"
  by (auto simp add: Execute_def executeWithoutTransaction_def ExecuteInTransaction_def
      same_table_def runMigration_def split: if_splits prod.splits option.splits
      dest!: db_io_frame)

lemma run_before_trace:
  "run_before fns name d w = (r, w') \<Longrightarrow>
     \<exists>k \<le> length fns. trace w' = trace w @ replicate k (BeforeHook name d) \<and>
                       (r = None \<longrightarrow> k = length fns)"
proof (induction fns arbitrary: w)
  case Nil
  then show ?case by simp
next
  case (Cons fn fns)
  let ?w1 = "w\<lparr>trace := trace w @ [BeforeHook name d]\<rparr>"
  show ?case
  proof (cases "fn name d")
    case (Some err)
    with Cons.prems have "w' = w\<lparr>trace := trace w @ [BeforeHook name d]\<rparr>" "r = Some err"
      by (simp_all add: Let_def)
    then have "trace w' = trace w @ replicate 1 (BeforeHook name d)" "r \<noteq> None"
      by simp_all
    then show ?thesis by (intro exI[of _ 1]) auto
  next
    case None
    with Cons.prems have "run_before fns name d ?w1 = (r, w')" by (simp add: Let_def)
    from Cons.IH[OF this] obtain k where k: "k \<le> length fns"
      "trace w' = trace ?w1 @ replicate k (BeforeHook name d)" "r = None \<longrightarrow> k = length fns"
      by blast
    then have "trace w' = trace w @ replicate (Suc k) (BeforeHook name d)"
      by (simp add: replicate_append_same)
    with k show ?thesis by (intro exI[of _ "Suc k"]) simp
  qed
qed

lemma Execute_trace:
  "Execute m d w = (r, w') \<Longrightarrow>
     (trace w' = trace w \<or> trace w' = trace w @ [Body m d]) \<and>
     (r = None \<longrightarrow> trace w' = trace w @ [Body m d])"
  by (auto simp add: Execute_def executeWithoutTransaction_def ExecuteInTransaction_def
      runMigration_def split: if_splits prod.splits option.splits dest!: db_io_frame)

lemma up_one_rows:
  assumes "up_one m b p w = (r, w')"
  shows "table_exists w' = table_exists w \<and> clock w' = clock w \<and>
         (case r of None \<Rightarrow> rows w' = rows w @ [applied_row b (clock w) p]
                  | Some e \<Rightarrow> rows w' = rows w)"
proof -
  obtain r1 w1 where b1: "RunBefore (hooks m) (reg_Name p) ''up'' w = (r1, w1)" by fastforce
  note f1 = run_before_frame[OF b1[unfolded RunBefore_def]]
  show ?thesis
  proof (cases r1)
    case (Some e)
    with assms b1 f1 show ?thesis by (auto simp add: up_one_def same_table_def)
  next
    case None
    obtain r2 w2 where b2: "Execute (reg_Migration p) ''up'' w1 = (r2, w2)" by fastforce
    note f2 = Execute_frame[OF b2]
    show ?thesis
    proof (cases r2)
      case (Some e)
      with assms b1 b2 None f1 f2 show ?thesis by (auto simp add: up_one_def same_table_def)
    next
      case n2: None
      obtain r3 w3 where b3: "Tracker_Record (tableName m) (reg_Name p) b w2 = (r3, w3)"
        by fastforce
      note f3 = Tracker_Record_frame[OF b3]
      have f4: "same_table w3 (run_after (afterHooks (hooks m)) (reg_Name p) ''up'' w3)"
        using run_after_frame by blast
      show ?thesis
      proof (cases r3)
        case (Some e)
        with assms b1 b2 b3 None n2 f1 f2 f3 show ?thesis
          by (auto simp add: up_one_def same_table_def)
      next
        case n3: None
        with assms b1 b2 b3 None n2 f1 f2 f3 f4 show ?thesis
          by (auto simp add: up_one_def same_table_def RunAfter_def applied_row_def)
      qed
    qed
  qed
qed

lemma up_one_trace:
  assumes "up_one m b p w = (r, w')"
  shows "case r of
           None \<Rightarrow> trace w' = trace w @ up_events m p
         | Some e \<Rightarrow> \<exists>evs. trace w' = trace w @ evs \<and>
                      set evs \<subseteq> {BeforeHook (reg_Name p) ''up'', Body (reg_Migration p) ''up''}"
proof -
  obtain r1 w1 where b1: "RunBefore (hooks m) (reg_Name p) ''up'' w = (r1, w1)" by fastforce
  from run_before_trace[OF b1[unfolded RunBefore_def]]
  obtain k where k: "trace w1 = trace w @ replicate k (BeforeHook (reg_Name p) ''up'')"
    "r1 = None \<longrightarrow> k = length (beforeHooks (hooks m))" by blast
  show ?thesis
  proof (cases r1)
    case (Some e)
    with assms b1 k show ?thesis by (auto simp add: up_one_def)
  next
    case None
    obtain r2 w2 where b2: "Execute (reg_Migration p) ''up'' w1 = (r2, w2)" by fastforce
    note t2 = Execute_trace[OF b2]
    show ?thesis
    proof (cases r2)
      case (Some e)
      with assms b1 b2 None have "r = Some (wrap (''migration '' @ fmt_q (reg_Name p) @ '' up: '') e)"
        "w' = w2" by (auto simp add: up_one_def)
      moreover from t2 k have "\<exists>evs. trace w2 = trace w @ evs \<and>
         set evs \<subseteq> {BeforeHook (reg_Name p) ''up'', Body (reg_Migration p) ''up''}"
        by auto
      ultimately show ?thesis by simp
    next
      case n2: None
      with t2 have t2': "trace w2 = trace w1 @ [Body (reg_Migration p) ''up'']" by simp
      obtain r3 w3 where b3: "Tracker_Record (tableName m) (reg_Name p) b w2 = (r3, w3)"
        by fastforce
      from Tracker_Record_frame[OF b3] have t3: "trace w3 = trace w2" by simp
      show ?thesis
      proof (cases r3)
        case (Some e)
        with assms b1 b2 b3 None n2 have "r = Some e" "w' = w3" by (auto simp add: up_one_def)
        moreover from t2' t3 k have "\<exists>evs. trace w3 = trace w @ evs \<and>
           set evs \<subseteq> {BeforeHook (reg_Name p) ''up'', Body (reg_Migration p) ''up''}"
          by auto
        ultimately show ?thesis by simp
      next
        case n3: None
        with assms b1 b2 b3 None n2 have "r = None"
          "w' = run_after (afterHooks (hooks m)) (reg_Name p) ''up'' w3"
          by (auto simp add: up_one_def RunAfter_def)
        moreover have "trace (run_after (afterHooks (hooks m)) (reg_Name p) ''up'' w3) =
           trace w3 @ replicate (length (afterHooks (hooks m))) (AfterHook (reg_Name p) ''up'')"
          using run_after_frame by blast
        ultimately show ?thesis using t2' t3 k None by (simp add: up_events_def)
      qed
    qed
  qed
qed

lemma up_loop_append:
  "up_loop m b pre w = (None, w1) \<Longrightarrow> up_loop m b (pre @ post) w = up_loop m b post w1"
  by (induction pre arbitrary: w) (auto split: prod.splits option.splits)

lemma up_loop_success:
  "up_loop m b ps w = (None, w') \<Longrightarrow>
     table_exists w' = table_exists w \<and> clock w' = clock w \<and>
     rows w' = rows w @ map (applied_row b (clock w)) ps \<and>
     trace w' = trace w @ concat (map (up_events m) ps)"
proof (induction ps arbitrary: w)
  case Nil
  then show ?case by simp
next
  case (Cons p ps)
  obtain r1 w1 where s1: "up_one m b p w = (r1, w1)" by fastforce
  with Cons.prems have r1: "r1 = None" and rest: "up_loop m b ps w1 = (None, w')"
    by (auto split: option.splits)
  from up_one_rows[OF s1] up_one_trace[OF s1] r1
  have "table_exists w1 = table_exists w" "clock w1 = clock w"
    "rows w1 = rows w @ [applied_row b (clock w) p]" "trace w1 = trace w @ up_events m p"
    by simp_all
  with Cons.IH[OF rest] show ?case by simp
qed


lemma up_first_failure:
  assumes "up_loop m b pre w = (None, w1)" and "up_one m b p w1 = (Some e, w2)"
  shows "up_loop m b (pre @ p # post) w = (Some e, w2) \<and>
         up_loop m b (pre @ p # post) w = up_loop m b (pre @ [p]) w \<and>
         rows w2 = rows w @ map (applied_row b (clock w)) pre \<and>
         (\<exists>evs. trace w2 = trace w @ concat (map (up_events m) pre) @ evs \<and>
                set evs \<subseteq> {BeforeHook (reg_Name p) ''up'', Body (reg_Migration p) ''up''})"
proof -
  from up_loop_append[OF assms(1)] assms(2)
  have "up_loop m b (pre @ p # post) w = (Some e, w2)" "up_loop m b (pre @ [p]) w = (Some e, w2)"
    by simp_all
  moreover from up_loop_success[OF assms(1)] up_one_rows[OF assms(2)]
  have "rows w2 = rows w @ map (applied_row b (clock w)) pre" by simp
  moreover from up_loop_success[OF assms(1)] up_one_trace[OF assms(2)]
  have "\<exists>evs. trace w2 = trace w @ concat (map (up_events m) pre) @ evs \<and>
                set evs \<subseteq> {BeforeHook (reg_Name p) ''up'', Body (reg_Migration p) ''up''}"
    by auto
  ultimately show ?thesis by simp
qed

subsection \<open>With the database answering every call\<close>

lemma EnsureTable_healthy:
  "faults w = [] \<Longrightarrow>
   EnsureTable t w =
     (None, w\<lparr>table_exists := True, statements := statements w @ [(EnsureTable_query t, [])]\<rparr>)"
  by (simp add: EnsureTable_def db_send_healthy)

lemma GetApplied_healthy:
  "faults w = [] \<Longrightarrow> table_exists w \<Longrightarrow>
   GetApplied t w =
     (Inr (sort_key mr_Name (rows w)), w\<lparr>statements := statements w @ [(GetApplied_query t, [])]\<rparr>)"
  by (simp add: GetApplied_def db_send_healthy)

lemma GetByBatch_healthy:
  "faults w = [] \<Longrightarrow> table_exists w \<Longrightarrow>
   GetByBatch t b w =
     (Inr (sort_key mr_Name (filter (\<lambda>r. mr_Batch r = b) (rows w))),
      w\<lparr>statements := statements w @ [(GetByBatch_query t, [ArgInt b])]\<rparr>)"
  by (simp add: GetByBatch_def db_send_healthy)

lemma NextBatchNumber_healthy:
  "faults w = [] \<Longrightarrow> table_exists w \<Longrightarrow>
   NextBatchNumber t w =
     (Inr (max_batch (rows w) + 1),
      w\<lparr>statements := statements w @ [(GetLastBatchNumber_query t, [])]\<rparr>)"
  by (simp add: NextBatchNumber_def GetLastBatchNumber_def db_send_healthy)


lemma Tracker_Remove_healthy:
  "faults w = [] \<Longrightarrow> table_exists w \<Longrightarrow>
   Tracker_Remove t name w =
     (None, w\<lparr>rows := filter (\<lambda>r. mr_Name r \<noteq> name) (rows w),
              statements := statements w @ [(Remove_query t, [ArgString name])]\<rparr>)"
  by (simp add: Tracker_Remove_def db_send_healthy)

lemma Execute_healthy:
  "faults w = [] \<Longrightarrow>
   Execute mig ''up'' w = (up_body mig, w\<lparr>trace := trace w @ [Body mig ''up'']\<rparr>) \<and>
   Execute mig ''down'' w = (down_body mig, w\<lparr>trace := trace w @ [Body mig ''down'']\<rparr>)"
  by (cases "up_body mig"; cases "down_body mig")
     (simp_all add: Execute_def executeWithoutTransaction_def ExecuteInTransaction_def
        runMigration_def db_io_healthy)

lemma run_before_faults: "run_before fns name d w = (r, w') \<Longrightarrow> faults w' = faults w"
  using run_before_frame by blast






lemma Up_healthy_unfold:
  assumes "faults w = []"
  shows "Up m w =
     (let w2 = w\<lparr>table_exists := True,
                 statements := statements w @
                   [(EnsureTable_query (tableName m), []), (GetApplied_query (tableName m), [])]\<rparr>;
          pending = pending_of (registry m) (sort_key mr_Name (rows w))
      in if pending = [] then (None, w2)
         else up_loop m (max_batch (rows w) + 1) pending
                (w2\<lparr>statements := statements w2 @
                       [(GetLastBatchNumber_query (tableName m), [])]\<rparr>))"
  using assms
  by (simp add: Up_def EnsureTable_healthy GetApplied_healthy NextBatchNumber_healthy
      Registry_GetAll_def Let_def)


lemma rollback_one_rows:
  assumes "rollback_one m rec w = (r, w')"
  shows "table_exists w' = table_exists w \<and> clock w' = clock w \<and>
         (case r of None \<Rightarrow> rows w' = filter (\<lambda>x. mr_Name x \<noteq> mr_Name rec) (rows w)
                  | Some e \<Rightarrow> rows w' = rows w)"
proof (cases "Registry_Get (registry m) (mr_Name rec)")
  case (Inl err)
  with assms show ?thesis by (auto simp add: rollback_one_def)
next
  case (Inr mig)
  obtain r1 w1 where b1: "RunBefore (hooks m) (mr_Name rec) ''down'' w = (r1, w1)" by fastforce
  note f1 = run_before_frame[OF b1[unfolded RunBefore_def]]
  show ?thesis
  proof (cases r1)
    case (Some e)
    with assms Inr b1 f1 show ?thesis by (auto simp add: rollback_one_def same_table_def)
  next
    case None
    obtain r2 w2 where b2: "Execute mig ''down'' w1 = (r2, w2)" by fastforce
    note f2 = Execute_frame[OF b2]
    show ?thesis
    proof (cases r2)
      case (Some e)
      with assms Inr b1 b2 None f1 f2 show ?thesis
        by (auto simp add: rollback_one_def same_table_def)
    next
      case n2: None
      obtain r3 w3 where b3: "Tracker_Remove (tableName m) (mr_Name rec) w2 = (r3, w3)"
        by fastforce
      note f3 = Tracker_Remove_frame[OF b3]
      have f4: "same_table w3 (run_after (afterHooks (hooks m)) (mr_Name rec) ''down'' w3)"
        using run_after_frame by blast
      show ?thesis
      proof (cases r3)
        case (Some e)
        with assms Inr b1 b2 b3 None n2 f1 f2 f3 show ?thesis
          by (auto simp add: rollback_one_def same_table_def)
      next
        case n3: None
        with assms Inr b1 b2 b3 None n2 f1 f2 f3 f4 show ?thesis
          by (auto simp add: rollback_one_def same_table_def RunAfter_def)
      qed
    qed
  qed
qed

lemma rollback_one_trace:
  assumes "rollback_one m rec w = (r, w')"
  shows "case r of
           None \<Rightarrow> trace w' = trace w @ rollback_events m rec
         | Some e \<Rightarrow> \<exists>evs. trace w' = trace w @ evs \<and> set evs \<subseteq> set (rollback_events m rec) \<and>
                           AfterHook (mr_Name rec) ''down'' \<notin> set evs"
proof (cases "Registry_Get (registry m) (mr_Name rec)")
  case (Inl err)
  with assms show ?thesis by (auto simp add: rollback_one_def)
next
  case (Inr mig)
  have ev: "rollback_events m rec =
      replicate (length (beforeHooks (hooks m))) (BeforeHook (mr_Name rec) ''down'') @
      [Body mig ''down''] @
      replicate (length (afterHooks (hooks m))) (AfterHook (mr_Name rec) ''down'')"
    by (simp add: rollback_events_def Inr)
  obtain r1 w1 where b1: "RunBefore (hooks m) (mr_Name rec) ''down'' w = (r1, w1)" by fastforce
  from run_before_trace[OF b1[unfolded RunBefore_def]]
  obtain k where k: "k \<le> length (beforeHooks (hooks m))"
    "trace w1 = trace w @ replicate k (BeforeHook (mr_Name rec) ''down'')"
    "r1 = None \<longrightarrow> k = length (beforeHooks (hooks m))" by blast
  have sub: "set (replicate k (BeforeHook (mr_Name rec) ''down'')) \<subseteq> set (rollback_events m rec)"
    using k(1) by (auto simp add: ev)
  show ?thesis
  proof (cases r1)
    case (Some e)
    with assms Inr b1 have "r = Some (wrap (''before hook for '' @ fmt_q (mr_Name rec) @ '': '') e)"
      "w' = w1" by (auto simp add: rollback_one_def)
    moreover have "\<exists>evs. trace w1 = trace w @ evs \<and> set evs \<subseteq> set (rollback_events m rec) \<and>
        AfterHook (mr_Name rec) ''down'' \<notin> set evs"
      using k(2) sub by (intro exI[of _ "replicate k (BeforeHook (mr_Name rec) ''down'')"]) auto
    ultimately show ?thesis by simp
  next
    case None
    obtain r2 w2 where b2: "Execute mig ''down'' w1 = (r2, w2)" by fastforce
    note t2 = Execute_trace[OF b2]
    have part: "\<exists>evs. trace w2 = trace w @ evs \<and> set evs \<subseteq> set (rollback_events m rec) \<and>
        AfterHook (mr_Name rec) ''down'' \<notin> set evs"
    proof (cases "trace w2 = trace w1")
      case True
      then show ?thesis using k(2) sub
        by (intro exI[of _ "replicate k (BeforeHook (mr_Name rec) ''down'')"]) auto
    next
      case False
      with t2 have "trace w2 = trace w1 @ [Body mig ''down'']" by blast
      then show ?thesis using k(2) sub
        by (intro exI[of _ "replicate k (BeforeHook (mr_Name rec) ''down'') @ [Body mig ''down'']"])
           (auto simp add: ev)
    qed
    show ?thesis
    proof (cases r2)
      case (Some e)
      with assms Inr b1 b2 None have "r = Some (wrap (''migration '' @ fmt_q (mr_Name rec) @ '' down: '') e)"
        "w' = w2" by (auto simp add: rollback_one_def)
      with part show ?thesis by simp
    next
      case n2: None
      with t2 have t2': "trace w2 = trace w1 @ [Body mig ''down'']" by simp
      obtain r3 w3 where b3: "Tracker_Remove (tableName m) (mr_Name rec) w2 = (r3, w3)"
        by fastforce
      from Tracker_Remove_frame[OF b3] have t3: "trace w3 = trace w2" by simp
      show ?thesis
      proof (cases r3)
        case (Some e)
        with assms Inr b1 b2 b3 None n2 have "r = Some e" "w' = w3"
          by (auto simp add: rollback_one_def)
        with part t3 show ?thesis by simp
      next
        case n3: None
        with assms Inr b1 b2 b3 None n2 have "r = None"
          "w' = run_after (afterHooks (hooks m)) (mr_Name rec) ''down'' w3"
          by (auto simp add: rollback_one_def RunAfter_def)
        moreover have "trace (run_after (afterHooks (hooks m)) (mr_Name rec) ''down'' w3) =
           trace w3 @ replicate (length (afterHooks (hooks m))) (AfterHook (mr_Name rec) ''down'')"
          using run_after_frame by blast
        ultimately show ?thesis using t2' t3 k None by (simp add: ev)
      qed
    qed
  qed
qed

lemma rollback_loop_append:
  "rollback_loop m pre w = (None, w1) \<Longrightarrow>
   rollback_loop m (pre @ post) w = rollback_loop m post w1"
  by (induction pre arbitrary: w) (auto split: prod.splits option.splits)

lemma rollback_loop_success:
  "rollback_loop m recs w = (None, w') \<Longrightarrow>
     table_exists w' = table_exists w \<and> clock w' = clock w \<and>
     rows w' = filter (\<lambda>x. mr_Name x \<notin> mr_Name ` set recs) (rows w) \<and>
     trace w' = trace w @ concat (map (rollback_events m) recs)"
proof (induction recs arbitrary: w)
  case Nil
  then show ?case by simp
next
  case (Cons rec recs)
  obtain r1 w1 where s1: "rollback_one m rec w = (r1, w1)" by fastforce
  with Cons.prems have r1: "r1 = None" and rest: "rollback_loop m recs w1 = (None, w')"
    by (auto split: option.splits)
  from rollback_one_rows[OF s1] rollback_one_trace[OF s1] r1
  have "table_exists w1 = table_exists w" "clock w1 = clock w"
    "rows w1 = filter (\<lambda>x. mr_Name x \<noteq> mr_Name rec) (rows w)"
    "trace w1 = trace w @ rollback_events m rec"
    by simp_all
  with Cons.IH[OF rest] show ?case by (auto intro: filter_cong)
qed

lemma rollback_one_healthy:
  assumes "faults w = []" "table_exists w"
    and "Registry_Get (registry m) (mr_Name rec) = Inr mig" "down_body mig = None"
    and "\<forall>h \<in> set (beforeHooks (hooks m)). h (mr_Name rec) ''down'' = None"
  shows "\<exists>w'. rollback_one m rec w = (None, w') \<and> faults w' = []"
proof -
  let ?w1 = "w\<lparr>trace := trace w @
      replicate (length (beforeHooks (hooks m))) (BeforeHook (mr_Name rec) ''down'')\<rparr>"
  have b1: "RunBefore (hooks m) (mr_Name rec) ''down'' w = (None, ?w1)"
    unfolding RunBefore_def by (rule run_before_pass[OF assms(5)])
  let ?w2 = "?w1\<lparr>trace := trace ?w1 @ [Body mig ''down'']\<rparr>"
  have b2: "Execute mig ''down'' ?w1 = (None, ?w2)"
    using Execute_healthy[of ?w1 mig] assms(1,4) by simp
  obtain w3 where b3: "Tracker_Remove (tableName m) (mr_Name rec) ?w2 = (None, w3)"
    and f3: "faults w3 = []"
    using Tracker_Remove_healthy[of ?w2 "tableName m" "mr_Name rec"] assms(1,2) by simp
  have "rollback_one m rec w = (None, run_after (afterHooks (hooks m)) (mr_Name rec) ''down'' w3)"
    using b2 b3 by (simp add: rollback_one_def assms(3) b1 RunAfter_def)
  moreover have "faults (run_after (afterHooks (hooks m)) (mr_Name rec) ''down'' w3) = []"
    using run_after_frame[of w3] f3 by simp
  ultimately show ?thesis by blast
qed

lemma rollback_loop_healthy:
  "faults w = [] \<Longrightarrow> table_exists w \<Longrightarrow>
   \<forall>rec \<in> set recs. \<exists>mig. Registry_Get (registry m) (mr_Name rec) = Inr mig \<and>
      down_body mig = None \<and>
      (\<forall>h \<in> set (beforeHooks (hooks m)). h (mr_Name rec) ''down'' = None) \<Longrightarrow>
   \<exists>w'. rollback_loop m recs w = (None, w') \<and> faults w' = []"
proof (induction recs arbitrary: w)
  case Nil
  then show ?case by simp
next
  case (Cons rec recs)
  from Cons.prems(3) obtain mig where mig: "Registry_Get (registry m) (mr_Name rec) = Inr mig"
    "down_body mig = None" "\<forall>h \<in> set (beforeHooks (hooks m)). h (mr_Name rec) ''down'' = None"
    by auto
  from rollback_one_healthy[OF Cons.prems(1,2) mig]
  obtain w1 where s1: "rollback_one m rec w = (None, w1)" and f1: "faults w1 = []" by auto
  from rollback_one_rows[OF s1] Cons.prems(2) have t1: "table_exists w1" by simp
  have "\<exists>w'. rollback_loop m recs w1 = (None, w') \<and> faults w' = []"
    using Cons.IH[OF f1 t1] Cons.prems(3) by simp
  then show ?case using s1 by simp
qed

lemma max_batch_Max: "rs \<noteq> [] \<Longrightarrow> max_batch rs = Max (mr_Batch ` set rs)"
proof -
  assume "rs \<noteq> []"
  then obtain r rs' where rs: "rs = r # rs'" by (cases rs) auto
  have "max_batch rs = fold max (map mr_Batch rs') (mr_Batch r)"
    by (simp add: max_batch_def rs)
  also have "\<dots> = Max (set (mr_Batch r # map mr_Batch rs'))"
    by (rule Max.set_eq_fold[symmetric])
  finally show ?thesis by (simp add: rs)
qed

lemma max_batch_positive:
  assumes "rs \<noteq> []" "\<forall>r \<in> set rs. 0 < mr_Batch r"
  shows "0 < max_batch rs"
proof -
  have "Max (mr_Batch ` set rs) \<in> mr_Batch ` set rs"
    using assms(1) by (intro Max_in) auto
  then obtain r where "r \<in> set rs" "mr_Batch r = Max (mr_Batch ` set rs)" by auto
  then show ?thesis using assms by (auto simp add: max_batch_Max)
qed

lemma last_entries_reversed:
  "n \<le> length xs \<Longrightarrow> map (\<lambda>i. xs ! (length xs - 1 - i)) [0..<n] = take n (rev xs)"
  by (rule nth_equalityI) (simp_all add: rev_nth)

lemma GetLastBatch_healthy:
  assumes "faults w = []" "table_exists w" "\<forall>r \<in> set (rows w). 0 < mr_Batch r"
  shows "\<exists>w'. GetLastBatch t w =
            (Inr (sort_key mr_Name (filter (\<lambda>r. mr_Batch r = max_batch (rows w)) (rows w))), w') \<and>
          faults w' = [] \<and> same_table w w' \<and> trace w' = trace w"
proof (cases "rows w = []")
  case True
  then show ?thesis using assms
    by (simp add: GetLastBatch_def GetLastBatchNumber_def db_send_healthy max_batch_def
        same_table_def)
next
  case False
  then have "max_batch (rows w) \<noteq> 0" using max_batch_positive[OF False assms(3)] by simp
  then show ?thesis using assms
    by (simp add: GetLastBatch_def GetLastBatchNumber_def GetByBatch_def db_send_healthy
        same_table_def)
qed

lemma GetLastNMigrations_healthy:
  assumes "faults w = []" "table_exists w" "0 < n"
  shows "\<exists>w'. GetLastNMigrations t n w = (Inr (take (nat n) (rev (sort_key mr_Name (rows w)))), w') \<and>
          faults w' = [] \<and> same_table w w' \<and> trace w' = trace w"
proof -
  let ?applied = "sort_key mr_Name (rows w)"
  let ?w' = "w\<lparr>statements := statements w @ [(GetApplied_query t, [])]\<rparr>"
  have ga: "GetApplied t w = (Inr ?applied, ?w')"
    by (rule GetApplied_healthy[OF assms(1,2)])
  show ?thesis
  proof (cases "rows w = []")
    case True
    then show ?thesis using assms by (simp add: GetLastNMigrations_def ga same_table_def)
  next
    case False
    have A: "int (length ?applied) < n \<Longrightarrow>
        map (\<lambda>i. ?applied ! (length ?applied - 1 - i)) [0..<length ?applied] =
        take (nat n) (rev ?applied)"
      using last_entries_reversed[of "length ?applied" ?applied] by simp
    have B: "\<not> int (length ?applied) < n \<Longrightarrow>
        map (\<lambda>i. ?applied ! (length ?applied - 1 - i)) [0..<nat n] =
        take (nat n) (rev ?applied)"
      using last_entries_reversed[of "nat n" ?applied] assms(3) by (simp add: nat_le_iff)
    show ?thesis using assms False A B
      by (simp add: GetLastNMigrations_def ga same_table_def Let_def)
  qed
qed



lemma Rollback_runs_loop:
  assumes healthy: "faults w = []"
    and positive: "\<forall>r \<in> set (rows w). 0 < mr_Batch r"
    and steps: "0 \<le> steps"
    and targets: "targets = rollback_targets steps (rows w)"
  shows "\<exists>w2. Rollback m steps w =
                (if targets = [] then (None, w2) else rollback_loop m targets w2) \<and>
              faults w2 = [] \<and> table_exists w2 \<and> rows w2 = rows w \<and> trace w2 = trace w \<and>
              clock w2 = clock w"
proof -
  let ?w1 = "w\<lparr>table_exists := True,
                statements := statements w @ [(EnsureTable_query (tableName m), [])]\<rparr>"
  have e: "EnsureTable (tableName m) w = (None, ?w1)" by (rule EnsureTable_healthy[OF healthy])
  have h1: "faults ?w1 = []" "table_exists ?w1" "rows ?w1 = rows w" "trace ?w1 = trace w"
    using healthy by simp_all
  obtain w2 where g: "(if steps = 0 then GetLastBatch (tableName m) ?w1
                       else GetLastNMigrations (tableName m) steps ?w1) =
                      (Inr (if steps = 0 then rev targets else targets), w2)"
    and h2: "faults w2 = []" "same_table ?w1 w2" "trace w2 = trace ?w1"
  proof (cases "steps = 0")
    case True
    from GetLastBatch_healthy[of ?w1 "tableName m"] h1 positive
    obtain w2 where "GetLastBatch (tableName m) ?w1 =
        (Inr (sort_key mr_Name (filter (\<lambda>r. mr_Batch r = max_batch (rows w)) (rows w))), w2)"
      "faults w2 = []" "same_table ?w1 w2" "trace w2 = trace ?w1" by auto
    then show ?thesis using that True by (simp add: targets rollback_targets_def)
  next
    case False
    with steps have pos: "0 < steps" by simp
    from GetLastNMigrations_healthy[of ?w1 steps "tableName m"] h1 pos
    obtain w2 where "GetLastNMigrations (tableName m) steps ?w1 =
        (Inr (take (nat steps) (rev (sort_key mr_Name (rows w)))), w2)"
      "faults w2 = []" "same_table ?w1 w2" "trace w2 = trace ?w1" by auto
    then show ?thesis using that False by (simp add: targets rollback_targets_def)
  qed
  have t2: "table_exists w2" "rows w2 = rows w" "clock w2 = clock w"
    using h2(2) by (simp_all add: same_table_def)
  have "Rollback m steps w = (if targets = [] then (None, w2) else rollback_loop m targets w2)"
    using g by (simp add: Rollback_def e reverseRecords_def split: if_splits)
  with h2 t2 show ?thesis by auto
qed

lemma reset_one_as_rollback: "reset_one m rec w = rollback_one (without_before_hooks m) rec w"
  by (simp add: reset_one_def rollback_one_def without_before_hooks_def RunBefore_def RunAfter_def
      split: sum.splits prod.splits option.splits)

lemma reset_loop_as_rollback: "reset_loop m recs w = rollback_loop (without_before_hooks m) recs w"
  by (induction recs arbitrary: w)
     (simp_all add: reset_one_as_rollback split: prod.splits option.splits)

lemma reset_events_as_rollback: "reset_events m rec = rollback_events (without_before_hooks m) rec"
  by (simp add: reset_events_def rollback_events_def without_before_hooks_def split: sum.splits)

lemma Reset_ignores_before_hooks: "Reset m w = Reset (without_before_hooks m) w"
proof -
  have t: "tableName (without_before_hooks m) = tableName m"
    by (simp add: without_before_hooks_def)
  have idem: "without_before_hooks (without_before_hooks m) = without_before_hooks m"
    by (simp add: without_before_hooks_def)
  have l: "reset_loop (without_before_hooks m) recs v = reset_loop m recs v" for recs v
    by (simp add: reset_loop_as_rollback idem)
  show ?thesis
    by (simp add: Reset_def t l split: prod.splits option.splits sum.splits)
qed

lemma Reset_contract:
  assumes healthy: "faults w = []"
    and ok: "\<forall>rec \<in> set (rows w). \<exists>mig. Registry_Get (registry m) (mr_Name rec) = Inr mig \<and>
               down_body mig = None"
  shows "fst (Reset m w) = None \<and> rows (snd (Reset m w)) = [] \<and>
         trace (snd (Reset m w)) =
           trace w @ concat (map (reset_events m) (rev (sort_key mr_Name (rows w))))"
proof -
  let ?w1 = "w\<lparr>table_exists := True,
                statements := statements w @ [(EnsureTable_query (tableName m), [])]\<rparr>"
  let ?w2 = "?w1\<lparr>statements := statements ?w1 @ [(GetApplied_query (tableName m), [])]\<rparr>"
  let ?targets = "rev (sort_key mr_Name (rows w))"
  let ?m = "without_before_hooks m"
  have run: "Reset m w = rollback_loop ?m ?targets ?w2"
    using healthy
    by (simp add: Reset_def EnsureTable_healthy GetApplied_healthy reverseRecords_def
        reset_loop_as_rollback)
  have ok': "\<forall>rec \<in> set ?targets. \<exists>mig. Registry_Get (registry ?m) (mr_Name rec) = Inr mig \<and>
      down_body mig = None \<and> (\<forall>h \<in> set (beforeHooks (hooks ?m)). h (mr_Name rec) ''down'' = None)"
    using ok by (simp add: without_before_hooks_def)
  from rollback_loop_healthy[of ?w2 ?targets ?m, OF _ _ ok'] healthy
  obtain w' where l: "rollback_loop ?m ?targets ?w2 = (None, w')" by auto
  have "filter (\<lambda>x. mr_Name x \<notin> mr_Name ` set ?targets) (rows w) = []"
    by (auto simp add: filter_empty_conv)
  with rollback_loop_success[OF l] run l show ?thesis
    by (simp add: reset_events_as_rollback[abs_def])
qed

lemmas concrete_defs =
  failing_migration_def mig_a_def mig_b_def mig_b_failing_def mig_c_def passing_hooks_def
  vetoing_hooks_def migrator_ab_def migrator_abc_def migrator_unregistered_def migrator_veto_def
  migrator_sqlite_def empty_world_def row_a_def row_b_def row_c_def world_of_def
  noop_migration_def




lemma rollback_first_failure:
  assumes "rollback_loop m pre w = (None, w1)" and "rollback_one m rec w1 = (Some e, w2)"
  shows "rollback_loop m (pre @ rec # post) w = (Some e, w2) \<and>
         rollback_loop m (pre @ rec # post) w = rollback_loop m (pre @ [rec]) w \<and>
         rows w2 = filter (\<lambda>x. mr_Name x \<notin> mr_Name ` set pre) (rows w) \<and>
         (\<exists>evs. trace w2 = trace w @ concat (map (rollback_events m) pre) @ evs \<and>
                set evs \<subseteq> set (rollback_events m rec) \<and>
                AfterHook (mr_Name rec) ''down'' \<notin> set evs)"
proof -
  from rollback_loop_append[OF assms(1)] assms(2)
  have "rollback_loop m (pre @ rec # post) w = (Some e, w2)"
    "rollback_loop m (pre @ [rec]) w = (Some e, w2)"
    by simp_all
  moreover from rollback_loop_success[OF assms(1)] rollback_one_rows[OF assms(2)]
  have "rows w2 = filter (\<lambda>x. mr_Name x \<notin> mr_Name ` set pre) (rows w)" by simp
  moreover from rollback_loop_success[OF assms(1)] rollback_one_trace[OF assms(2)]
  have "\<exists>evs. trace w2 = trace w @ concat (map (rollback_events m) pre) @ evs \<and>
                set evs \<subseteq> set (rollback_events m rec) \<and>
                AfterHook (mr_Name rec) ''down'' \<notin> set evs"
    by auto
  ultimately show ?thesis by simp
qed

text \<open>
  Claim C3. With the database answering, \<open>Up\<close> is its loop run on the pending
  migrations with the new batch number, and \<open>Rollback\<close> is its loop run on the records
  to roll back. In either loop, when the turns for the first items succeed and the turn
  for the next item fails (its before-hook, its body or the tracker call), the call
  returns that error and is the same as if the later items were not there: they are never
  run. After a failed \<open>Up\<close> the tracking table holds the old rows and the rows of the
  items before the failing one; after a failed \<open>Rollback\<close> it has lost the rows of the
  items before the failing one and no other. Beyond the complete runs of the earlier
  items, the only host code run is before-hooks and possibly the body of the failing item.
\<close>

theorem first_failure_stops:
  "(faults w0 = [] \<longrightarrow>
      Up m w0 =
        (let w2 = w0\<lparr>table_exists := True,
                     statements := statements w0 @
                       [(EnsureTable_query (tableName m), []),
                        (GetApplied_query (tableName m), [])]\<rparr>;
             pending = pending_of (registry m) (sort_key mr_Name (rows w0))
         in if pending = [] then (None, w2)
            else up_loop m (max_batch (rows w0) + 1) pending
                   (w2\<lparr>statements := statements w2 @
                          [(GetLastBatchNumber_query (tableName m), [])]\<rparr>))) \<and>
   (up_loop m b pre w = (None, w1) \<and> up_one m b p w1 = (Some e, w2) \<longrightarrow>
      up_loop m b (pre @ p # post) w = (Some e, w2) \<and>
      up_loop m b (pre @ p # post) w = up_loop m b (pre @ [p]) w \<and>
      rows w2 = rows w @ map (applied_row b (clock w)) pre \<and>
      (\<exists>evs. trace w2 = trace w @ concat (map (up_events m) pre) @ evs \<and>
             set evs \<subseteq> {BeforeHook (reg_Name p) ''up'', Body (reg_Migration p) ''up''})) \<and>
   (faults w0 = [] \<and> (\<forall>r \<in> set (rows w0). 0 < mr_Batch r) \<and> 0 \<le> steps \<longrightarrow>
      (\<exists>v0. Rollback m steps w0 =
              (if rollback_targets steps (rows w0) = [] then (None, v0)
               else rollback_loop m (rollback_targets steps (rows w0)) v0) \<and>
            rows v0 = rows w0 \<and> trace v0 = trace w0)) \<and>
   (rollback_loop m rolled v = (None, v1) \<and> rollback_one m rec v1 = (Some e', v2) \<longrightarrow>
      rollback_loop m (rolled @ rec # rest) v = (Some e', v2) \<and>
      rollback_loop m (rolled @ rec # rest) v = rollback_loop m (rolled @ [rec]) v \<and>
      rows v2 = filter (\<lambda>x. mr_Name x \<notin> mr_Name ` set rolled) (rows v) \<and>
      (\<exists>evs. trace v2 = trace v @ concat (map (rollback_events m) rolled) @ evs \<and>
             set evs \<subseteq> set (rollback_events m rec) \<and>
             AfterHook (mr_Name rec) ''down'' \<notin> set evs))"
proof (intro conjI impI)
  assume "faults w0 = []"
  then show "Up m w0 =
        (let w2 = w0\<lparr>table_exists := True,
                     statements := statements w0 @
                       [(EnsureTable_query (tableName m), []),
                        (GetApplied_query (tableName m), [])]\<rparr>;
             pending = pending_of (registry m) (sort_key mr_Name (rows w0))
         in if pending = [] then (None, w2)
            else up_loop m (max_batch (rows w0) + 1) pending
                   (w2\<lparr>statements := statements w2 @
                          [(GetLastBatchNumber_query (tableName m), [])]\<rparr>))"
    by (rule Up_healthy_unfold)
next
  assume a: "up_loop m b pre w = (None, w1) \<and> up_one m b p w1 = (Some e, w2)"
  note r = up_first_failure[OF conjunct1[OF a] conjunct2[OF a], of post]
  show "up_loop m b (pre @ p # post) w = (Some e, w2)" using r by blast
  show "up_loop m b (pre @ p # post) w = up_loop m b (pre @ [p]) w" using r by blast
  show "rows w2 = rows w @ map (applied_row b (clock w)) pre" using r by blast
  show "\<exists>evs. trace w2 = trace w @ concat (map (up_events m) pre) @ evs \<and>
             set evs \<subseteq> {BeforeHook (reg_Name p) ''up'', Body (reg_Migration p) ''up''}"
    using r by blast
next
  assume a: "faults w0 = [] \<and> (\<forall>r \<in> set (rows w0). 0 < mr_Batch r) \<and> 0 \<le> steps"
  from Rollback_runs_loop[of w0 steps "rollback_targets steps (rows w0)" m] a
  show "\<exists>v0. Rollback m steps w0 =
              (if rollback_targets steps (rows w0) = [] then (None, v0)
               else rollback_loop m (rollback_targets steps (rows w0)) v0) \<and>
            rows v0 = rows w0 \<and> trace v0 = trace w0"
    by blast
next
  assume a: "rollback_loop m rolled v = (None, v1) \<and> rollback_one m rec v1 = (Some e', v2)"
  note r = rollback_first_failure[OF conjunct1[OF a] conjunct2[OF a], of rest]
  show "rollback_loop m (rolled @ rec # rest) v = (Some e', v2)" using r by blast
  show "rollback_loop m (rolled @ rec # rest) v = rollback_loop m (rolled @ [rec]) v"
    using r by blast
  show "rows v2 = filter (\<lambda>x. mr_Name x \<notin> mr_Name ` set rolled) (rows v)" using r by blast
  show "\<exists>evs. trace v2 = trace v @ concat (map (rollback_events m) rolled) @ evs \<and>
             set evs \<subseteq> set (rollback_events m rec) \<and>
             AfterHook (mr_Name rec) ''down'' \<notin> set evs"
    using r by blast
qed

text \<open>Three migrations of which the second fails, going up and coming down.\<close>

theorem first_failure_stops_witness:
  "faults empty_world = [] \<and>
   Up migrator_abc empty_world =
     up_loop migrator_abc 1 [mig_a, mig_b_failing, mig_c] prepared_world \<and>
   fst (up_loop migrator_abc 1 [mig_a] prepared_world) = None \<and>
   fst (Up migrator_abc empty_world) =
     Some (wrap (''migration '' @ fmt_q ''20240102000000_b'' @ '' up: '')
             (Err ''up failed'' Opaque)) \<and>
   rows (snd (Up migrator_abc empty_world)) = [row_a] \<and>
   0 < mr_Batch row_a \<and> 0 < mr_Batch row_b \<and> 0 < mr_Batch row_c \<and>
   (\<exists>v0. Rollback migrator_abc 0 (world_of [row_a, row_b, row_c]) =
           rollback_loop migrator_abc [row_c, row_b, row_a] v0 \<and>
         rows v0 = [row_a, row_b, row_c]) \<and>
   fst (rollback_loop migrator_abc [row_c] (world_of [row_a, row_b, row_c])) = None \<and>
   fst (rollback_loop migrator_abc [row_c, row_b, row_a] (world_of [row_a, row_b, row_c])) =
     Some (wrap (''migration '' @ fmt_q ''20240102000000_b'' @ '' down: '')
             (Err ''down failed'' Opaque)) \<and>
   rows (snd (rollback_loop migrator_abc [row_c, row_b, row_a] (world_of [row_a, row_b, row_c]))) =
     [row_a, row_b]"
proof -
  let ?m = migrator_abc
  let ?eu = "wrap (''migration '' @ fmt_q ''20240102000000_b'' @ '' up: '') (Err ''up failed'' Opaque)"
  let ?ed = "wrap (''migration '' @ fmt_q ''20240102000000_b'' @ '' down: '')
               (Err ''down failed'' Opaque)"
  let ?w1 = "snd (up_loop ?m 1 [mig_a] prepared_world)"
  let ?w2 = "snd (up_one ?m 1 mig_b_failing ?w1)"
  let ?v = "world_of [row_a, row_b, row_c]"
  let ?v1 = "snd (rollback_loop ?m [row_c] ?v)"
  let ?v2 = "snd (rollback_one ?m row_b ?v1)"
  have h: "faults empty_world = []" by (simp add: empty_world_def)
  have pw: "empty_world\<lparr>table_exists := True,
        statements := statements empty_world @
          [(EnsureTable_query (tableName ?m), []), (GetApplied_query (tableName ?m), []),
           (GetLastBatchNumber_query (tableName ?m), [])]\<rparr> = prepared_world"
    by (simp add: prepared_world_def empty_world_def migrator_abc_def)
  have pend: "pending_of (registry ?m) (sort_key mr_Name (rows empty_world)) =
      [mig_a, mig_b_failing, mig_c]" by code_simp
  have mb: "max_batch (rows empty_world) + 1 = 1" by code_simp
  have up: "Up ?m empty_world = up_loop ?m 1 [mig_a, mig_b_failing, mig_c] prepared_world"
    using first_failure_stops[of empty_world ?m, THEN conjunct1, rule_format, OF h]
    by (simp add: Let_def pend mb pw del: up_loop.simps)
  have f1: "fst (up_loop ?m 1 [mig_a] prepared_world) = None" by code_simp
  then have l1: "up_loop ?m 1 [mig_a] prepared_world = (None, ?w1)"
    by (metis prod.collapse)
  have "fst (up_one ?m 1 mig_b_failing ?w1) = Some ?eu" by code_simp
  then have s1: "up_one ?m 1 mig_b_failing ?w1 = (Some ?eu, ?w2)"
    by (metis prod.collapse)
  have r0: "rows prepared_world @ map (applied_row 1 (clock prepared_world)) [mig_a] = [row_a]"
    by code_simp
  from first_failure_stops[of _ ?m 1 "[mig_a]" prepared_world ?w1 mig_b_failing ?eu ?w2 "[mig_c]",
      THEN conjunct2, THEN conjunct1, rule_format, OF conjI[OF l1 s1]]
  have "up_loop ?m 1 ([mig_a] @ mig_b_failing # [mig_c]) prepared_world = (Some ?eu, ?w2) \<and>
        rows ?w2 = rows prepared_world @ map (applied_row 1 (clock prepared_world)) [mig_a]"
    by blast
  then have u: "fst (Up ?m empty_world) = Some ?eu" "rows (snd (Up ?m empty_world)) = [row_a]"
    using up r0 by simp_all
  have hv: "faults ?v = []" by (simp add: world_of_def)
  have pos: "\<forall>r \<in> set (rows ?v). 0 < mr_Batch r" by (simp add: concrete_defs)
  have tg: "rollback_targets 0 [row_a, row_b, row_c] = [row_c, row_b, row_a]" by code_simp
  have rv: "rows ?v = [row_a, row_b, row_c]" by (simp add: world_of_def)
  have le: "(0::int) \<le> 0" by simp
  from first_failure_stops[of ?v ?m _ _ _ _ _ _ _ _ 0,
      THEN conjunct2, THEN conjunct2, THEN conjunct1, rule_format, OF conjI[OF hv conjI[OF pos le]]]
  have "\<exists>v0. Rollback ?m 0 ?v =
              (if rollback_targets 0 (rows ?v) = [] then (None, v0)
               else rollback_loop ?m (rollback_targets 0 (rows ?v)) v0) \<and>
            rows v0 = rows ?v \<and> trace v0 = trace ?v"
    by simp
  then have rb: "\<exists>v0. Rollback ?m 0 ?v = rollback_loop ?m [row_c, row_b, row_a] v0 \<and>
      rows v0 = [row_a, row_b, row_c]"
    by (auto simp add: rv tg simp del: rollback_loop.simps)
  have g1: "fst (rollback_loop ?m [row_c] ?v) = None" by code_simp
  then have l2: "rollback_loop ?m [row_c] ?v = (None, ?v1)" by (metis prod.collapse)
  have "fst (rollback_one ?m row_b ?v1) = Some ?ed" by code_simp
  then have s2: "rollback_one ?m row_b ?v1 = (Some ?ed, ?v2)" by (metis prod.collapse)
  have r1: "filter (\<lambda>x. mr_Name x \<notin> mr_Name ` set [row_c]) (rows ?v) = [row_a, row_b]"
    by code_simp
  from first_failure_stops[of _ ?m _ _ _ _ _ _ _ _ _ "[row_c]" ?v ?v1 row_b ?ed ?v2 "[row_a]",
      THEN conjunct2, THEN conjunct2, THEN conjunct2, rule_format, OF conjI[OF l2 s2]]
  have "rollback_loop ?m ([row_c] @ row_b # [row_a]) ?v = (Some ?ed, ?v2) \<and>
        rows ?v2 = filter (\<lambda>x. mr_Name x \<notin> mr_Name ` set [row_c]) (rows ?v)"
    by blast
  then have d: "fst (rollback_loop ?m [row_c, row_b, row_a] ?v) = Some ?ed"
    "rows (snd (rollback_loop ?m [row_c, row_b, row_a] ?v)) = [row_a, row_b]"
    using r1 by simp_all
  have pos': "0 < mr_Batch row_a" "0 < mr_Batch row_b" "0 < mr_Batch row_c"
    by (simp_all add: concrete_defs)
  show ?thesis by (intro conjI h up f1 u pos' rb g1 d)
qed

text \<open>
  Claim C8. \<open>Reset\<close> does not keep \<open>Rollback\<close>'s contract for an item: it never
  calls a before-hook. With one applied migration and a before-hook that refuses,
  \<open>Rollback 0\<close> stops at the hook and rolls nothing back, while \<open>Reset\<close> runs
  \<open>Down\<close>, removes the row and calls only the after-hook.
\<close>

theorem Reset_skips_before_hooks:
  "fst (Rollback migrator_veto 0 (world_of [row_a])) =
     Some (wrap (''before hook for '' @ fmt_q ''20240101000000_a'' @ '': '')
             (Err ''not now'' Opaque)) \<and>
   rows (snd (Rollback migrator_veto 0 (world_of [row_a]))) = [row_a] \<and>
   trace (snd (Rollback migrator_veto 0 (world_of [row_a]))) =
     [BeforeHook ''20240101000000_a'' ''down''] \<and>
   fst (Reset migrator_veto (world_of [row_a])) = None \<and>
   rows (snd (Reset migrator_veto (world_of [row_a]))) = [] \<and>
   trace (snd (Reset migrator_veto (world_of [row_a]))) =
     [Body noop_migration ''down'', AfterHook ''20240101000000_a'' ''down'']"
  by code_simp

lemma db_Exec_not_drop:
  "\<not> has_prefix stmt ''DROP SCHEMA public CASCADE'' \<Longrightarrow>
   db_Exec stmt w = db_send stmt [] w"
  by (cases "db_send stmt [] w") (auto simp add: db_Exec_def split: option.splits)

text \<open>
  Claim C9. PostgreSQL's \<open>CompileDropAllTables\<close> is
  \<open>DROP SCHEMA public CASCADE; CREATE SCHEMA public\<close>; MySQL's is
  \<open>SET FOREIGN_KEY_CHECKS = 0\<close> and SQLite's is a \<open>SELECT\<close> over
  \<open>sqlite_master\<close>, neither of which holds a \<open>DROP\<close>. So \<open>Fresh\<close> with the MySQL
  or the SQLite grammar sends that statement, which leaves every table as it was, and
  then runs \<open>Up\<close>; with the PostgreSQL grammar \<open>Up\<close> starts from an emptied schema.
\<close>

theorem Fresh_drops_nothing_outside_postgres:
  "CompileDropAllTables PostgresGrammar = ''DROP SCHEMA public CASCADE; CREATE SCHEMA public'' \<and>
   CompileDropAllTables MySQLGrammar = ''SET FOREIGN_KEY_CHECKS = 0'' \<and>
   has_prefix (CompileDropAllTables SQLiteGrammar) ''SELECT name FROM sqlite_master WHERE '' \<and>
   \<not> strings_Contains (CompileDropAllTables MySQLGrammar) ''DROP'' \<and>
   \<not> strings_Contains (CompileDropAllTables SQLiteGrammar) ''DROP'' \<and>
   (grammar m = Some g \<and> g \<noteq> PostgresGrammar \<longrightarrow>
      Fresh m w =
        (case db_send (CompileDropAllTables g) [] w of
           (Some err, w1) \<Rightarrow> (Some (wrap ''drop all tables: '' err), w1)
         | (None, w1) \<Rightarrow> Up m w1) \<and>
      rows (snd (db_send (CompileDropAllTables g) [] w)) = rows w \<and>
      table_exists (snd (db_send (CompileDropAllTables g) [] w)) = table_exists w) \<and>
   (grammar m = Some PostgresGrammar \<and> faults w = [] \<longrightarrow>
      Fresh m w =
        Up m (w\<lparr>statements := statements w @ [(CompileDropAllTables PostgresGrammar, [])],
                rows := [], table_exists := False\<rparr>))"
proof (intro conjI impI)
  assume a: "grammar m = Some g \<and> g \<noteq> PostgresGrammar"
  then have np: "\<not> has_prefix (CompileDropAllTables g) ''DROP SCHEMA public CASCADE''"
    by (cases g) simp_all
  show "Fresh m w =
        (case db_send (CompileDropAllTables g) [] w of
           (Some err, w1) \<Rightarrow> (Some (wrap ''drop all tables: '' err), w1)
         | (None, w1) \<Rightarrow> Up m w1)"
    using a by (simp add: Fresh_def db_Exec_not_drop[OF np])
  obtain r w1 where s: "db_send (CompileDropAllTables g) [] w = (r, w1)" by fastforce
  from db_send_frame[OF s] s
  show "rows (snd (db_send (CompileDropAllTables g) [] w)) = rows w"
    "table_exists (snd (db_send (CompileDropAllTables g) [] w)) = table_exists w"
    by (simp_all add: same_table_def)
next
  assume "grammar m = Some PostgresGrammar \<and> faults w = []"
  then show "Fresh m w =
        Up m (w\<lparr>statements := statements w @ [(CompileDropAllTables PostgresGrammar, [])],
                rows := [], table_exists := False\<rparr>)"
    by (simp add: Fresh_def db_Exec_def db_send_healthy)
qed simp_all

text \<open>With the SQLite grammar and both migrations applied, \<open>Fresh\<close> changes nothing.\<close>

theorem Fresh_drops_nothing_witness:
  "grammar migrator_sqlite = Some SQLiteGrammar \<and> SQLiteGrammar \<noteq> PostgresGrammar \<and>
   registry migrator_sqlite = [mig_a, mig_b] \<and>
   rows (world_of [row_a, row_b]) = [row_a, row_b] \<and>
   fst (Fresh migrator_sqlite (world_of [row_a, row_b])) = None \<and>
   rows (snd (Fresh migrator_sqlite (world_of [row_a, row_b]))) = [row_a, row_b] \<and>
   trace (snd (Fresh migrator_sqlite (world_of [row_a, row_b]))) = []"
proof -
  let ?w = "world_of [row_a, row_b]"
  have g: "grammar migrator_sqlite = Some SQLiteGrammar \<and> SQLiteGrammar \<noteq> PostgresGrammar"
    by (simp add: migrator_sqlite_def)
  have f: "faults ?w = []" by (simp add: world_of_def)
  note F = Fresh_drops_nothing_outside_postgres[of migrator_sqlite SQLiteGrammar ?w,
      THEN conjunct2, THEN conjunct2, THEN conjunct2, THEN conjunct2, THEN conjunct2,
      THEN conjunct1, rule_format, OF g, THEN conjunct1]
  have fr: "Fresh migrator_sqlite ?w =
      Up migrator_sqlite (?w\<lparr>statements := statements ?w @
        [(CompileDropAllTables SQLiteGrammar, [])]\<rparr>)"
    unfolding F by (simp add: db_send_healthy[OF f])
  have u: "fst (Up migrator_sqlite (?w\<lparr>statements := statements ?w @
        [(CompileDropAllTables SQLiteGrammar, [])]\<rparr>)) = None"
    "rows (snd (Up migrator_sqlite (?w\<lparr>statements := statements ?w @
        [(CompileDropAllTables SQLiteGrammar, [])]\<rparr>))) = [row_a, row_b]"
    "trace (snd (Up migrator_sqlite (?w\<lparr>statements := statements ?w @
        [(CompileDropAllTables SQLiteGrammar, [])]\<rparr>))) = []"
    by code_simp+
  show ?thesis using g u unfolding fr by (simp add: migrator_sqlite_def world_of_def)
qed

lemma up_one_grammar: "up_one (m\<lparr>grammar := g\<rparr>) b p w = up_one m b p w"
  by (simp add: up_one_def split: prod.splits option.splits)

lemma up_loop_grammar: "up_loop (m\<lparr>grammar := g\<rparr>) b ps w = up_loop m b ps w"
  by (induction ps arbitrary: w) (simp_all add: up_one_grammar split: prod.splits option.splits)

lemma rollback_one_grammar: "rollback_one (m\<lparr>grammar := g\<rparr>) rec w = rollback_one m rec w"
  by (simp add: rollback_one_def split: prod.splits option.splits sum.splits)

lemma rollback_loop_grammar: "rollback_loop (m\<lparr>grammar := g\<rparr>) recs w = rollback_loop m recs w"
  by (induction recs arbitrary: w) (simp_all add: rollback_one_grammar split: prod.splits option.splits)

lemma reset_one_grammar: "reset_one (m\<lparr>grammar := g\<rparr>) rec w = reset_one m rec w"
  by (simp add: reset_one_def split: prod.splits option.splits sum.splits)

lemma reset_loop_grammar: "reset_loop (m\<lparr>grammar := g\<rparr>) recs w = reset_loop m recs w"
  by (induction recs arbitrary: w) (simp_all add: reset_one_grammar split: prod.splits option.splits)

text \<open>
  Claim C10. The statements of the tracker that take arguments are written with
  \<open>$1\<close> and \<open>$2\<close>, \<open>EnsureTable\<close> declares \<open>id SERIAL PRIMARY KEY\<close>, these are
  the statements the tracker sends, and the grammar the migrator is configured with
  changes nothing in \<open>Up\<close>, \<open>Rollback\<close> or \<open>Reset\<close>.
\<close>

theorem tracker_sql_is_postgres_style:
  "strings_Contains (GetByBatch_query t) ''WHERE batch = $1'' \<and>
   strings_Contains (Record_query t) ''VALUES ($1, $2)'' \<and>
   strings_Contains (Remove_query t) ''WHERE migration = $1'' \<and>
   strings_Contains (EnsureTable_query t) ''id         SERIAL PRIMARY KEY'' \<and>
   statements (snd (EnsureTable t w)) = statements w @ [(EnsureTable_query t, [])] \<and>
   statements (snd (GetByBatch t b w)) = statements w @ [(GetByBatch_query t, [ArgInt b])] \<and>
   statements (snd (Tracker_Record t name b w)) =
     statements w @ [(Record_query t, [ArgString name, ArgInt b])] \<and>
   statements (snd (Tracker_Remove t name w)) =
     statements w @ [(Remove_query t, [ArgString name])] \<and>
   Up (m\<lparr>grammar := g\<rparr>) w = Up m w \<and>
   Rollback (m\<lparr>grammar := g\<rparr>) steps w = Rollback m steps w \<and>
   Reset (m\<lparr>grammar := g\<rparr>) w = Reset m w"
proof (intro conjI)
  have "GetByBatch_query t =
      (''SELECT migration, batch, created_at FROM '' @ t @ '' '') @ ''WHERE batch = $1'' @
      '' ORDER BY migration ASC''"
    by (simp add: GetByBatch_query_def)
  then show "strings_Contains (GetByBatch_query t) ''WHERE batch = $1''"
    by (simp only: strings_Contains_mid)
  have "Record_query t = (''INSERT INTO '' @ t @ '' (migration, batch) '') @ ''VALUES ($1, $2)'' @ []"
    by (simp add: Record_query_def)
  then show "strings_Contains (Record_query t) ''VALUES ($1, $2)''"
    by (simp only: strings_Contains_mid)
  have "Remove_query t = (''DELETE FROM '' @ t @ '' '') @ ''WHERE migration = $1'' @ []"
    by (simp add: Remove_query_def)
  then show "strings_Contains (Remove_query t) ''WHERE migration = $1''"
    by (simp only: strings_Contains_mid)
  have "EnsureTable_query t =
      (''CREATE TABLE IF NOT EXISTS '' @ t @ '' ('' @ [CHR 0x0A, CHR 0x09, CHR 0x09]) @
      ''id         SERIAL PRIMARY KEY'' @
      ('','' @ [CHR 0x0A, CHR 0x09, CHR 0x09] @
       ''migration  VARCHAR(255) NOT NULL UNIQUE,'' @ [CHR 0x0A, CHR 0x09, CHR 0x09] @
       ''batch      INTEGER NOT NULL,'' @ [CHR 0x0A, CHR 0x09, CHR 0x09] @
       ''created_at TIMESTAMP NOT NULL DEFAULT CURRENT_TIMESTAMP'' @ [CHR 0x0A, CHR 0x09] @
       '')'')"
    by (simp add: EnsureTable_query_def)
  then show "strings_Contains (EnsureTable_query t) ''id         SERIAL PRIMARY KEY''"
    by (simp only: strings_Contains_mid)
  show "statements (snd (EnsureTable t w)) = statements w @ [(EnsureTable_query t, [])]"
    using EnsureTable_frame[of t w] by (cases "EnsureTable t w") simp
  show "statements (snd (GetByBatch t b w)) = statements w @ [(GetByBatch_query t, [ArgInt b])]"
    using GetByBatch_frame[of t b w] by (cases "GetByBatch t b w") simp
  show "statements (snd (Tracker_Record t name b w)) =
     statements w @ [(Record_query t, [ArgString name, ArgInt b])]"
    using Tracker_Record_frame[of t name b w] by (cases "Tracker_Record t name b w") simp
  show "statements (snd (Tracker_Remove t name w)) =
     statements w @ [(Remove_query t, [ArgString name])]"
    using Tracker_Remove_frame[of t name w] by (cases "Tracker_Remove t name w") simp
  show "Up (m\<lparr>grammar := g\<rparr>) w = Up m w"
    by (simp add: Up_def up_loop_grammar Let_def split: prod.splits option.splits sum.splits)
  show "Rollback (m\<lparr>grammar := g\<rparr>) steps w = Rollback m steps w"
    by (simp add: Rollback_def rollback_loop_grammar Let_def split: prod.splits option.splits sum.splits)
  show "Reset (m\<lparr>grammar := g\<rparr>) w = Reset m w"
    by (simp add: Reset_def reset_loop_grammar split: prod.splits option.splits sum.splits)
qed

section \<open>Seeder dependency resolution\<close>

subsection \<open>Chains, cycles and dependency-first lists\<close>











subsection \<open>What a visit establishes\<close>











subsection \<open>The resolution returns\<close>










subsection \<open>Consequences for \<open>Run\<close> and \<open>RunAll\<close>\<close>











subsection \<open>The order among the dependencies of the root\<close>







subsection \<open>The claims about the seeder runner\<close>










subsection \<open>Concrete registries\<close>








end
